theory Spec2Isabelle
  imports Main
begin

section \<open>Python values\<close>

text \<open>
  The agent passes JSON-shaped Python values around: plan steps, action dicts, result
  dicts and planner replies. A dict is an association list whose first binding of a key
  is the live one; a finite float is a mantissa and a binary exponent (only its
  truthiness is ever read).
\<close>

datatype pyval =
    PNone
  | PBool bool
  | PInt int
  | PFloat int int
  | PStr string
  | PList "pyval list"
  | PDict "(string \<times> pyval) list"

text \<open>Python truthiness, as read by \<^verbatim>\<open>if x\<close>, \<^verbatim>\<open>not x\<close> and \<^verbatim>\<open>x or y\<close>.\<close>

fun truthy :: "pyval \<Rightarrow> bool" where
  "truthy PNone = False"
| "truthy (PBool b) = b"
| "truthy (PInt n) = (n \<noteq> 0)"
| "truthy (PFloat m e) = (m \<noteq> 0)"
| "truthy (PStr s) = (s \<noteq> [])"
| "truthy (PList xs) = (xs \<noteq> [])"
| "truthy (PDict kvs) = (kvs \<noteq> [])"

definition py_or :: "pyval \<Rightarrow> pyval \<Rightarrow> pyval" where
  "py_or a b = (if truthy a then a else b)"

fun is_dict :: "pyval \<Rightarrow> bool" where
  "is_dict (PDict kvs) = True"
| "is_dict v = False"

text \<open>\<^verbatim>\<open>d.get(k)\<close> and \<^verbatim>\<open>d.get(k, default)\<close> on a dict.\<close>

definition dict_get :: "(string \<times> pyval) list \<Rightarrow> string \<Rightarrow> pyval" where
  "dict_get d k = (case map_of d k of None \<Rightarrow> PNone | Some v \<Rightarrow> v)"

definition dict_get_default :: "(string \<times> pyval) list \<Rightarrow> string \<Rightarrow> pyval \<Rightarrow> pyval" where
  "dict_get_default d k dflt = (case map_of d k of None \<Rightarrow> dflt | Some v \<Rightarrow> v)"

text \<open>\<^verbatim>\<open>k in d\<close>.\<close>

definition dict_has :: "(string \<times> pyval) list \<Rightarrow> string \<Rightarrow> bool" where
  "dict_has d k = (map_of d k \<noteq> None)"

text \<open>\<^verbatim>\<open>v.get(k)\<close> on any value: every value but a dict has no \<^verbatim>\<open>get\<close>.\<close>

fun val_get :: "pyval \<Rightarrow> string \<Rightarrow> pyval" where
  "val_get (PDict d) k = dict_get d k"
| "val_get v k = PNone"

section \<open>Exceptions\<close>

datatype py_exn =
    AttributeError pyval string
  | TypeError string
  | ExternalError string

fun type_name :: "pyval \<Rightarrow> string" where
  "type_name PNone = ''NoneType''"
| "type_name (PBool b) = ''bool''"
| "type_name (PInt n) = ''int''"
| "type_name (PFloat m e) = ''float''"
| "type_name (PStr s) = ''str''"
| "type_name (PList xs) = ''list''"
| "type_name (PDict kvs) = ''dict''"

text \<open>\<^verbatim>\<open>str(e)\<close>, as the f-strings of the error results print it.\<close>

fun exn_text :: "py_exn \<Rightarrow> string" where
  "exn_text (ExternalError m) = m"
| "exn_text (TypeError m) = m"
| "exn_text (AttributeError v attr) =
     [CHR 0x27] @ type_name v @ [CHR 0x27] @ '' object has no attribute ''
       @ [CHR 0x27] @ attr @ [CHR 0x27]"

section \<open>The outside world: browser driver, planner service, file system\<close>

datatype prompt =
    FeedbackPrompt pyval pyval pyval
  | UiPlanPrompt pyval pyval
  | BaseUrlPrompt pyval
  | TaskUrlPrompt pyval

datatype call =
    PageFill pyval pyval
  | QuerySelector pyval
  | QueryInputs
  | QueryText pyval
  | QueryHasText pyval
  | ElementFill pyval pyval
  | ElementClick pyval
  | KeyboardPress pyval
  | ScrollBy pyval
  | TimeSleep pyval
  | SelectOption pyval pyval
  | Hover pyval
  | PageContent
  | PageUrl
  | Screenshot string
  | PageGoto pyval bool
  | ContextCookies
  | CookiesFileExists
  | PreloadCookies
  | RemoveCookiesFile
  | SaveStorageState
  | ShowLoginBanner
  | RemoveLoginBanner
  | SaveStepMetadata pyval
  | BrowserClose
  | PlanAction prompt

datatype resp = Raise string | Return pyval

text \<open>
  What the run leaves behind, in order: every call to the outside with its answer, every
  pause of the agent itself (\<^verbatim>\<open>time.sleep\<close> with a literal, in milliseconds), a marker
  for every entry into the body of the per-step retry loop (step index, attempt number),
  and a marker for every answer of the authentication probe.
\<close>

datatype event =
    Called call resp
  | Paused nat
  | Attempt nat nat
  | Probed bool

text \<open>
  The state threaded through the agent and its controller. The world answers a call
  with a response, the time the call took (milliseconds) and its next state; the clock
  \<open>now\<close> is what \<^verbatim>\<open>time.time()\<close> reads.
\<close>

record 'w state =
  world :: 'w
  now :: nat
  log :: "event list"
  captured_names :: "string set"
  last_dom_snapshot :: pyval
  outdir :: string

type_synonym 'w responder = "'w \<Rightarrow> call \<Rightarrow> resp \<times> nat \<times> 'w"

definition do_call :: "'w responder \<Rightarrow> call \<Rightarrow> 'w state \<Rightarrow> resp \<times> 'w state" where
  "do_call W c st =
     (case W (world st) c of
        (r, d, w') \<Rightarrow> (r, st\<lparr>world := w', now := now st + d, log := log st @ [Called c r]\<rparr>))"

definition pause :: "nat \<Rightarrow> 'w state \<Rightarrow> 'w state" where
  "pause ms st = st\<lparr>now := now st + ms, log := log st @ [Paused ms]\<rparr>"

definition mark :: "event \<Rightarrow> 'w state \<Rightarrow> 'w state" where
  "mark e st = st\<lparr>log := log st @ [e]\<rparr>"

text \<open>
  A call inside a \<^verbatim>\<open>try\<close> block: a raise leaves the block with the exception, a return
  continues with the value.
\<close>

definition try_call ::
  "'w responder \<Rightarrow> call \<Rightarrow> 'w state \<Rightarrow> (pyval \<Rightarrow> 'w state \<Rightarrow> (py_exn + 'a) \<times> 'w state)
     \<Rightarrow> (py_exn + 'a) \<times> 'w state" where
  "try_call W c st k =
     (case do_call W c st of
        (Raise m, st') \<Rightarrow> (Inl (ExternalError m), st')
      | (Return v, st') \<Rightarrow> k v st')"

section \<open>Action Executor: \<^verbatim>\<open>PlaywrightController.execute_action\<close>\<close>

definition status1 :: "string \<Rightarrow> pyval" where
  "status1 s = PDict [(''status'', PStr s)]"

definition error1 :: "string \<Rightarrow> pyval" where
  "error1 s = PDict [(''error'', PStr s)]"

text \<open>The body of the \<^verbatim>\<open>try\<close> block of \<^verbatim>\<open>execute_action\<close>.\<close>

definition execute_action_try ::
  "'w responder \<Rightarrow> (string \<times> pyval) list \<Rightarrow> pyval \<Rightarrow> 'w state \<Rightarrow> (py_exn + pyval) \<times> 'w state" where
  "execute_action_try W action typ st =
     (if typ = PStr ''fill'' \<or> typ = PStr ''type'' \<or> typ = PStr ''set_value'' then
        (let selector = dict_get action ''selector'';
             text = py_or (dict_get_default action ''text'' (PStr ''''))
                          (dict_get_default action ''value'' (PStr ''''))
         in if truthy selector then
              try_call W (PageFill selector text) st
                (\<lambda>_ s. (Inr (PDict [(''status'', PStr ''filled''), (''selector'', selector)]), s))
            else
              try_call W QueryInputs st
                (\<lambda>el s. if truthy el then
                           try_call W (ElementFill el text) s
                             (\<lambda>_ s'. (Inr (status1 ''filled_first_input''), s'))
                         else (Inr (status1 ''no_input_found''), s)))
      else if typ = PStr ''click'' then
        (let selector = dict_get action ''selector'';
             by_text = dict_get_default action ''by_text'' (PBool False);
             text = dict_get action ''text''
         in if truthy by_text \<and> truthy text then
              try_call W (QueryText text) st
                (\<lambda>el s. if truthy el then
                           try_call W (ElementClick el) s
                             (\<lambda>_ s'. (Inr (status1 ''clicked_by_text''), s'))
                         else
                           try_call W (QueryHasText text) s
                             (\<lambda>el2 s2. if truthy el2 then
                                          try_call W (ElementClick el2) s2
                                            (\<lambda>_ s'. (Inr (status1 ''clicked_by_text_fallback''), s'))
                                        else (Inr (status1 ''no_element_by_text''), s2)))
            else if truthy selector then
              try_call W (QuerySelector selector) st
                (\<lambda>el s. if truthy el then
                           try_call W (ElementClick el) s
                             (\<lambda>_ s'. (Inr (PDict [(''status'', PStr ''clicked''),
                                                    (''selector'', selector)]), s'))
                         else (Inr (PDict [(''status'', PStr ''no_element''),
                                           (''selector'', selector)]), s))
            else (Inr (error1 ''no_selector_for_click''), st))
      else if typ = PStr ''press'' then
        (let key = dict_get_default action ''key'' (PStr ''Enter'')
         in try_call W (KeyboardPress key) st
              (\<lambda>_ s. (Inr (PDict [(''status'', PStr ''pressed''), (''key'', key)]), s)))
      else if typ = PStr ''scroll'' then
        (let distance = dict_get_default action ''distance'' (PInt 500)
         in try_call W (ScrollBy distance) st
              (\<lambda>_ s. (Inr (PDict [(''status'', PStr ''scrolled''), (''distance'', distance)]), s)))
      else if typ = PStr ''wait'' then
        try_call W (TimeSleep (dict_get_default action ''seconds'' (PInt 1))) st
          (\<lambda>_ s. (Inr (status1 ''waited''), s))
      else
        (Inr (PDict [(''error'', PStr ''unknown_action_type''), (''provided'', PDict action)]), st))"

text \<open>
  \<^verbatim>\<open>execute_action\<close> itself: the falsy guard, the \<^verbatim>\<open>.get\<close> of the kind (before the
  \<^verbatim>\<open>try\<close>, so a value without \<^verbatim>\<open>get\<close> raises to the caller), and the \<^verbatim>\<open>except\<close>
  clause that turns whatever the block raised into an error result.
\<close>

definition execute_action :: "'w responder \<Rightarrow> pyval \<Rightarrow> 'w state \<Rightarrow> (py_exn + pyval) \<times> 'w state" where
  "execute_action W action st =
     (if \<not> truthy action then (Inr (error1 ''no_action_provided''), st)
      else case action of
        PDict a \<Rightarrow>
          (let typ = py_or (dict_get a ''type'') (dict_get a ''action'')
           in case execute_action_try W a typ st of
                (Inl e, st') \<Rightarrow> (Inr (error1 (''execute_action_failed:'' @ exn_text e)), st')
              | (Inr r, st') \<Rightarrow> (Inr r, st'))
      | _ \<Rightarrow> (Inl (AttributeError action ''get''), st))"

section \<open>Plan Executor: \<^verbatim>\<open>Agent.execute_ui_plan\<close>\<close>

text \<open>
  How one pass through the \<^verbatim>\<open>try\<close> block of the retry loop ends: with a \<^verbatim>\<open>break\<close>
  (the kinds the agent performs itself), or by falling through to the success check.
\<close>

datatype flow = Broke pyval | Fell pyval

text \<open>\<^verbatim>\<open>if action_dict: result = self.controller.execute_action(action_dict)\<close>\<close>

definition run_action_dict ::
  "'w responder \<Rightarrow> (string \<times> pyval) list \<Rightarrow> pyval \<Rightarrow> 'w state \<Rightarrow> (py_exn + flow) \<times> 'w state" where
  "run_action_dict W action_dict result st =
     (if action_dict \<noteq> [] then
        (case execute_action W (PDict action_dict) st of
           (Inl e, st') \<Rightarrow> (Inl e, st')
         | (Inr r, st') \<Rightarrow> (Inr (Fell r), st'))
      else (Inr (Fell result), st))"

definition attempt_try ::
  "'w responder \<Rightarrow> (string \<times> pyval) list \<Rightarrow> pyval \<Rightarrow> pyval \<Rightarrow> pyval \<Rightarrow> pyval \<Rightarrow> 'w state
     \<Rightarrow> (py_exn + flow) \<times> 'w state" where
  "attempt_try W step typ selector value result st =
     (if typ = PStr ''fill'' \<or> typ = PStr ''type'' \<or> typ = PStr ''set_value'' then
        run_action_dict W
          [(''type'', PStr ''fill''), (''selector'', selector), (''text'', py_or value (PStr ''''))]
          result st
      else if typ = PStr ''click'' then
        (if truthy selector then
           run_action_dict W [(''type'', PStr ''click''), (''selector'', selector)] result st
         else if truthy (dict_get step ''by_text'') then
           run_action_dict W
             [(''type'', PStr ''click''), (''by_text'', PBool True), (''text'', dict_get step ''text'')]
             result st
         else run_action_dict W [] result st)
      else if typ = PStr ''press'' then
        run_action_dict W
          [(''type'', PStr ''press''), (''key'', dict_get_default step ''key'' (PStr ''Enter''))]
          result st
      else if typ = PStr ''wait'' then
        run_action_dict W
          [(''type'', PStr ''wait''), (''seconds'', dict_get_default step ''seconds'' (PInt 1))]
          result st
      else if typ = PStr ''scroll'' then
        run_action_dict W
          [(''type'', PStr ''scroll''),
           (''direction'', dict_get_default step ''direction'' (PStr ''down'')),
           (''distance'', dict_get_default step ''distance'' (PInt 500))]
          result st
      else if typ = PStr ''select'' \<or> typ = PStr ''select_option'' then
        (if truthy selector \<and> dict_has step ''value'' then
           try_call W (SelectOption selector (dict_get step ''value'')) st
             (\<lambda>_ s. (Inr (Broke (PDict [(''status'', PStr ''selected''), (''selector'', selector),
                                          (''value'', dict_get step ''value'')])), s))
         else (Inr (Broke (error1 ''select_missing_selector_or_value'')), st))
      else if typ = PStr ''hover'' then
        (if truthy selector then
           try_call W (Hover selector) st
             (\<lambda>_ s. (Inr (Broke (PDict [(''status'', PStr ''hovered''), (''selector'', selector)])), s))
         else (Inr (Broke (error1 ''hover_no_selector'')), st))
      else
        (Inr (Broke (PDict [(''error'', PStr ''unknown_action''), (''provided'', PDict step)])), st))"

text \<open>
  The check after the \<^verbatim>\<open>try\<close>:
  \<^verbatim>\<open>isinstance(result, dict) and (result.get("status") or not result.get("error"))\<close>.
\<close>

definition attempt_succeeds :: "pyval \<Rightarrow> bool" where
  "attempt_succeeds result =
     (is_dict result \<and> (truthy (val_get result ''status'') \<or> \<not> truthy (val_get result ''error'')))"

text \<open>\<^verbatim>\<open>except Exception as e: result = {"error": f"exception:{e}"}\<close>\<close>

definition exception_result :: "py_exn \<Rightarrow> pyval" where
  "exception_result e = error1 (''exception:'' @ exn_text e)"

text \<open>
  \<^verbatim>\<open>for attempt in range(max_retries + 1)\<close>: the seventh argument counts the passes
  that remain, the eighth is \<^verbatim>\<open>attempt\<close>. An exception raised inside the \<^verbatim>\<open>try\<close> becomes
  the result \<^verbatim>\<open>{"error": f"exception:{e}"}\<close> and goes through the same check.
\<close>

fun attempt_loop ::
  "'w responder \<Rightarrow> nat \<Rightarrow> (string \<times> pyval) list \<Rightarrow> pyval \<Rightarrow> pyval \<Rightarrow> pyval \<Rightarrow> nat \<Rightarrow> nat \<Rightarrow> pyval
     \<Rightarrow> 'w state \<Rightarrow> pyval \<times> 'w state" where
  "attempt_loop W idx step typ selector value 0 attempt result st = (result, st)"
| "attempt_loop W idx step typ selector value (Suc n) attempt result st =
     (case attempt_try W step typ selector value result (mark (Attempt idx attempt) st) of
        (Inr (Broke r), st') \<Rightarrow> (r, st')
      | (Inr (Fell r), st') \<Rightarrow>
          (if attempt_succeeds r then (r, st')
           else attempt_loop W idx step typ selector value n (Suc attempt) r (pause 500 st'))
      | (Inl e, st') \<Rightarrow>
          (if attempt_succeeds (exception_result e) then (exception_result e, st')
           else attempt_loop W idx step typ selector value n (Suc attempt)
                  (exception_result e) (pause 500 st')))"

definition step_record :: "nat \<Rightarrow> pyval \<Rightarrow> pyval \<Rightarrow> pyval" where
  "step_record idx step result =
     PDict [(''step_index'', PInt (int idx)), (''step'', step), (''result'', result)]"

definition repl_record :: "pyval \<Rightarrow> pyval \<Rightarrow> pyval" where
  "repl_record repl_action repl_res =
     PDict [(''repl_step'', repl_action), (''repl_result'', repl_res)]"

text \<open>
  The recovery path of one step: read the DOM (empty on failure), ask the planner with
  the feedback prompt, and hand the value under \<^verbatim>\<open>"action"\<close> of a dict reply to
  \<^verbatim>\<open>execute_action\<close>, outside any \<^verbatim>\<open>try\<close>. It returns the records to append.
\<close>

definition recover ::
  "'w responder \<Rightarrow> pyval \<Rightarrow> pyval \<Rightarrow> 'w state \<Rightarrow> (py_exn + pyval list) \<times> 'w state" where
  "recover W step result st =
     (case do_call W PageContent st of
        (r, st1) \<Rightarrow>
          (let dom_snapshot = (case r of Raise m \<Rightarrow> PStr '''' | Return v \<Rightarrow> v)
           in case do_call W (PlanAction (FeedbackPrompt step result dom_snapshot)) st1 of
                (Raise m, st2) \<Rightarrow> (Inl (ExternalError m), st2)
              | (Return repl, st2) \<Rightarrow>
                  (let repl_action = (if is_dict repl then val_get repl ''action'' else PNone)
                   in if truthy repl_action then
                        (case execute_action W repl_action st2 of
                           (Inl e, st3) \<Rightarrow> (Inl e, st3)
                         | (Inr repl_res, st3) \<Rightarrow> (Inr [repl_record repl_action repl_res], st3))
                      else (Inr [], st2))))"

text \<open>\<^verbatim>\<open>isinstance(result, dict) and result.get("error")\<close>\<close>

definition needs_recovery :: "pyval \<Rightarrow> bool" where
  "needs_recovery result = (is_dict result \<and> truthy (val_get result ''error''))"

text \<open>
  \<^verbatim>\<open>for idx, step in enumerate(ui_plan)\<close>. The three \<^verbatim>\<open>step.get\<close> chains stand before the
  \<^verbatim>\<open>try\<close>, so a step that is not a dict raises out of the whole function.
\<close>

fun plan_loop ::
  "'w responder \<Rightarrow> nat \<Rightarrow> nat \<Rightarrow> pyval list \<Rightarrow> pyval list \<Rightarrow> 'w state
     \<Rightarrow> (py_exn + pyval list) \<times> 'w state" where
  "plan_loop W attempts idx [] results st = (Inr results, st)"
| "plan_loop W attempts idx (step # rest) results st =
     (case step of
        PDict s \<Rightarrow>
          (let typ = py_or (dict_get s ''action'') (dict_get s ''type'');
               selector = py_or (py_or (dict_get s ''selector'') (dict_get s ''sel''))
                                (dict_get s ''query'');
               value = py_or (py_or (dict_get s ''value'') (dict_get s ''text''))
                             (dict_get s ''fill'')
           in case attempt_loop W idx s typ selector value attempts 0 PNone st of
                (result, st1) \<Rightarrow>
                  (if needs_recovery result then
                     (case recover W step result st1 of
                        (Inl e, st2) \<Rightarrow> (Inl e, st2)
                      | (Inr extra, st2) \<Rightarrow>
                          plan_loop W attempts (Suc idx) rest
                            (results @ [step_record idx step result] @ extra) st2)
                   else plan_loop W attempts (Suc idx) rest
                          (results @ [step_record idx step result]) st1))
      | _ \<Rightarrow> (Inl (AttributeError step ''get''), st))"

definition execute_ui_plan ::
  "'w responder \<Rightarrow> pyval \<Rightarrow> int \<Rightarrow> 'w state \<Rightarrow> (py_exn + pyval) \<times> 'w state" where
  "execute_ui_plan W ui_plan max_retries st =
     (case ui_plan of
        PList steps \<Rightarrow>
          (case plan_loop W (nat (max_retries + 1)) 0 steps [] st of
             (Inl e, st') \<Rightarrow> (Inl e, st')
           | (Inr results, st') \<Rightarrow> (Inr (PList results), st'))
      | _ \<Rightarrow> (Inr (PDict [(''error'', PStr ''ui_plan_not_list''), (''raw'', ui_plan)]), st))"

section \<open>Observations on a run\<close>

fun is_list :: "pyval \<Rightarrow> bool" where
  "is_list (PList xs) = True"
| "is_list v = False"

fun is_attempt :: "nat \<Rightarrow> event \<Rightarrow> bool" where
  "is_attempt i (Attempt j k) = (i = j)"
| "is_attempt i e = False"

fun is_pause :: "event \<Rightarrow> bool" where
  "is_pause (Paused ms) = True"
| "is_pause e = False"

fun is_raise :: "event \<Rightarrow> bool" where
  "is_raise (Called c (Raise m)) = True"
| "is_raise e = False"

fun is_called :: "event \<Rightarrow> bool" where
  "is_called (Called c r) = True"
| "is_called e = False"


text \<open>Passes through the retry loop of step \<open>i\<close>, pauses, raised calls, planner calls so far.\<close>

definition attempts_of :: "nat \<Rightarrow> 'w state \<Rightarrow> nat" where
  "attempts_of i st = length (filter (is_attempt i) (log st))"

definition pauses_of :: "'w state \<Rightarrow> nat" where
  "pauses_of st = length (filter is_pause (log st))"

definition raises_of :: "'w state \<Rightarrow> nat" where
  "raises_of st = length (filter is_raise (log st))"


text \<open>The events a computation appended, and the computations that only call the outside.\<close>

definition emitted :: "'w state \<Rightarrow> 'w state \<Rightarrow> event list" where
  "emitted st st' = drop (length (log st)) (log st')"

definition calls_only :: "'w state \<Rightarrow> 'w state \<Rightarrow> bool" where
  "calls_only st st' =
     (take (length (log st)) (log st') = log st \<and> list_all is_called (emitted st st'))"

text \<open>
  The kinds whose pass through the \<^verbatim>\<open>try\<close> block ends at the success check; every other
  kind is performed by the agent itself and ends the loop with \<^verbatim>\<open>break\<close>.
\<close>

definition retried_kind :: "pyval \<Rightarrow> bool" where
  "retried_kind t =
     (t = PStr ''fill'' \<or> t = PStr ''type'' \<or> t = PStr ''set_value'' \<or> t = PStr ''click''
      \<or> t = PStr ''press'' \<or> t = PStr ''wait'' \<or> t = PStr ''scroll'')"

text \<open>A result in which exactly one of the keys \<^verbatim>\<open>status\<close> and \<^verbatim>\<open>error\<close> is set.\<close>

fun well_tagged :: "pyval \<Rightarrow> bool" where
  "well_tagged (PDict d) = (dict_has d ''status'' \<noteq> dict_has d ''error'')"
| "well_tagged v = False"

text \<open>The same of what a pass through the \<^verbatim>\<open>try\<close> block of the retry loop hands on.\<close>

fun flow_tagged :: "py_exn + flow \<Rightarrow> bool" where
  "flow_tagged (Inl e) = True"
| "flow_tagged (Inr (Broke r)) = well_tagged r"
| "flow_tagged (Inr (Fell r)) = well_tagged r"

section \<open>Concrete runs\<close>

definition init_state :: "'w \<Rightarrow> 'w state" where
  "init_state w =
     \<lparr>world = w, now = 0, log = [], captured_names = {}, last_dom_snapshot = PNone,
      outdir = ''out''\<rparr>"

text \<open>
  A page on which the button appears late: the first two \<^verbatim>\<open>query_selector\<close> calls time
  out, the third finds the element.
\<close>

definition flaky_click :: "nat responder" where
  "flaky_click n c =
     (case c of
        QuerySelector sel \<Rightarrow>
          (if n < 2 then Raise ''Timeout 30000ms exceeded'' else Return (PStr ''<button>''),
           10, Suc n)
      | _ \<Rightarrow> (Return PNone, 10, Suc n))"



text \<open>A page on which no selector matches anything and nothing raises.\<close>

definition nothing_matches :: "unit responder" where
  "nothing_matches u c = (Return PNone, 10, ())"

definition missing_step :: pyval where
  "missing_step = PDict [(''action'', PStr ''click''), (''selector'', PStr ''#missing'')]"

text \<open>
  A planner that answers every prompt in the shape the feedback prompt asks for,
  \<^verbatim>\<open>{"action": "click", "selector": "#ok"}\<close>, on a page where nothing raises.
\<close>

definition suggest_click :: "unit responder" where
  "suggest_click u c =
     (case c of
        PlanAction p \<Rightarrow>
          (Return (PDict [(''action'', PStr ''click''), (''selector'', PStr ''#ok'')]), 800, ())
      | PageContent \<Rightarrow> (Return (PStr ''<html></html>''), 10, ())
      | _ \<Rightarrow> (Return PNone, 10, ()))"

definition hover_step :: pyval where
  "hover_step = PDict [(''action'', PStr ''hover'')]"

text \<open>A closed page: every driver call raises; the planner has nothing to suggest.\<close>

definition page_closed :: "unit responder" where
  "page_closed u c =
     (case c of
        PlanAction p \<Rightarrow> (Return (PDict [(''verdict'', PStr ''done'')]), 800, ())
      | _ \<Rightarrow> (Raise ''Target page, context or browser has been closed'', 1, ()))"

definition select_step :: pyval where
  "select_step =
     PDict [(''action'', PStr ''select''), (''selector'', PStr ''#country''), (''value'', PStr ''FR'')]"

definition bare_click_step :: pyval where
  "bare_click_step = PDict [(''action'', PStr ''click'')]"

section \<open>State Recorder: \<^verbatim>\<open>PlaywrightController.capture\<close>\<close>

text \<open>\<^verbatim>\<open>os.path.join(outdir, name)\<close> on POSIX.\<close>

definition path_join :: "string \<Rightarrow> string \<Rightarrow> string" where
  "path_join dir name =
     (case name of
        [] \<Rightarrow> (if dir = [] \<or> last dir = CHR ''/'' then dir else dir @ ''/'')
      | c # cs \<Rightarrow>
          (if c = CHR ''/'' then name
           else if dir = [] \<or> last dir = CHR ''/'' then dir @ name
           else dir @ ''/'' @ name))"

text \<open>
  \<^verbatim>\<open>capture(label)\<close>: the early return for a label already in \<^verbatim>\<open>captured_names\<close>, then
  the two guarded driver calls.
\<close>

definition capture :: "'w responder \<Rightarrow> string \<Rightarrow> 'w state \<Rightarrow> (pyval \<times> pyval) \<times> 'w state" where
  "capture W label st =
     (if label \<in> captured_names st then ((PStr '''', PNone), st)
      else
        (case do_call W PageContent (st\<lparr>captured_names := insert label (captured_names st)\<rparr>) of
           (r1, st1) \<Rightarrow>
             (case do_call W (Screenshot (path_join (outdir st) (label @ ''.png''))) st1 of
                (r2, st2) \<Rightarrow>
                  (((case r1 of Raise e \<Rightarrow> PStr ''<no DOM captured>'' | Return v \<Rightarrow> v),
                    (case r2 of Raise e \<Rightarrow> PNone
                     | Return v \<Rightarrow> PStr (path_join (outdir st) (label @ ''.png'')))),
                   st2))))"

text \<open>Any number of further captures, one after the other.\<close>

fun captures :: "'w responder \<Rightarrow> string list \<Rightarrow> 'w state \<Rightarrow> 'w state" where
  "captures W [] st = st"
| "captures W (l # ls) st = captures W ls (snd (capture W l st))"

section \<open>URL cleaning: \<^verbatim>\<open>Agent._clean_url\<close>\<close>

text \<open>
  Strings are lists of code points below 256. \<^verbatim>\<open>str.strip()\<close> removes the characters
  for which \<^verbatim>\<open>str.isspace\<close> holds, \<^verbatim>\<open>str.strip(chars)\<close> the listed ones, from both ends.
\<close>

definition is_space :: "char \<Rightarrow> bool" where
  "is_space c =
     (let n = (of_char c :: nat)
      in (9 \<le> n \<and> n \<le> 13) \<or> (28 \<le> n \<and> n \<le> 32) \<or> n = 133 \<or> n = 160)"

definition strip_where :: "(char \<Rightarrow> bool) \<Rightarrow> string \<Rightarrow> string" where
  "strip_where P s = rev (dropWhile P (rev (dropWhile P s)))"

definition py_strip :: "string \<Rightarrow> string" where
  "py_strip s = strip_where is_space s"

definition is_quote :: "char \<Rightarrow> bool" where
  "is_quote c = (c = CHR 0x60 \<or> c = CHR 0x27 \<or> c = CHR 0x22)"

definition lower_char :: "char \<Rightarrow> char" where
  "lower_char c =
     (let n = (of_char c :: nat)
      in if (65 \<le> n \<and> n \<le> 90) \<or> (192 \<le> n \<and> n \<le> 222 \<and> n \<noteq> 215)
         then char_of (n + 32) else c)"

definition py_lower :: "string \<Rightarrow> string" where
  "py_lower s = map lower_char s"

definition startswith :: "string \<Rightarrow> string \<Rightarrow> bool" where
  "startswith s p = (take (length p) s = p)"

text \<open>\<^verbatim>\<open>s.replace(" ", "%20")\<close> and \<^verbatim>\<open>s.replace("\\", "")\<close>.\<close>

definition encode_spaces :: "string \<Rightarrow> string" where
  "encode_spaces s = concat (map (\<lambda>c. if c = CHR '' '' then ''%20'' else [c]) s)"

definition remove_backslashes :: "string \<Rightarrow> string" where
  "remove_backslashes s = filter (\<lambda>c. c \<noteq> CHR 0x5C) s"

definition clean_url :: "string \<Rightarrow> string" where
  "clean_url url =
     (if url = [] then []
      else
        (let u = strip_where is_quote (py_strip url)
         in if \<not> startswith (py_lower u) ''http'' then []
            else remove_backslashes (encode_spaces u)))"

text \<open>
  The specification's wording, for comparison: a URL has an http-family scheme when it
  begins with the scheme \<^verbatim>\<open>http\<close> or \<^verbatim>\<open>https\<close> and the \<^verbatim>\<open>://\<close> of an absolute URL.
\<close>

definition spec_has_http_scheme :: "string \<Rightarrow> bool" where
  "spec_has_http_scheme s =
     (startswith (py_lower s) ''http://'' \<or> startswith (py_lower s) ''https://'')"

section \<open>Planner Gateway: \<^verbatim>\<open>GeminiClient._extract_json_from_text\<close>\<close>

text \<open>
  \<^verbatim>\<open>re.search(r"(\{[\s\S]*\}|\[[\s\S]*\])", text)\<close>. The star is greedy and
  \<^verbatim>\<open>[\s\S]\<close> matches every character, so from an opening bracket the match runs to the
  last closing bracket of the same kind in the text; the search takes the leftmost
  position at which one of the two alternatives matches.
\<close>

definition upto_last :: "char \<Rightarrow> string \<Rightarrow> string option" where
  "upto_last c s = (if c \<in> set s then Some (rev (dropWhile (\<lambda>x. x \<noteq> c) (rev s))) else None)"

fun re_search_json :: "string \<Rightarrow> string option" where
  "re_search_json [] = None"
| "re_search_json (x # xs) =
     (if x = CHR ''{'' then
        (case upto_last (CHR ''}'') xs of Some m \<Rightarrow> Some (x # m) | None \<Rightarrow> re_search_json xs)
      else if x = CHR ''['' then
        (case upto_last (CHR '']'') xs of Some m \<Rightarrow> Some (x # m) | None \<Rightarrow> re_search_json xs)
      else re_search_json xs)"

text \<open>\<^verbatim>\<open>json_str.replace("'", '"')\<close>\<close>

definition replace_quotes :: "string \<Rightarrow> string" where
  "replace_quotes s = map (\<lambda>c. if c = CHR 0x27 then CHR 0x22 else c) s"

text \<open>The class \<^verbatim>\<open>\w\<close> of a \<^verbatim>\<open>str\<close> pattern, on code points below 256.\<close>

definition is_word :: "char \<Rightarrow> bool" where
  "is_word c =
     (let n = (of_char c :: nat)
      in (48 \<le> n \<and> n \<le> 57) \<or> (65 \<le> n \<and> n \<le> 90) \<or> n = 95 \<or> (97 \<le> n \<and> n \<le> 122)
         \<or> n = 170 \<or> n = 178 \<or> n = 179 \<or> n = 181 \<or> n = 185 \<or> n = 186
         \<or> (188 \<le> n \<and> n \<le> 190) \<or> (192 \<le> n \<and> n \<le> 214) \<or> (216 \<le> n \<and> n \<le> 246)
         \<or> 248 \<le> n)"

text \<open>
  \<^verbatim>\<open>re.sub(r"(\w+):", r'"\1":', cleaned)\<close>, read left to right: \<open>run\<close> is the run of
  word characters just passed. A run followed by a colon is wrapped in double quotes; a
  run followed by anything else cannot match at any of its positions and is kept.
\<close>

fun re_sub_keys :: "string \<Rightarrow> string \<Rightarrow> string" where
  "re_sub_keys run [] = run"
| "re_sub_keys run (c # cs) =
     (if is_word c then re_sub_keys (run @ [c]) cs
      else if c = CHR '':'' \<and> run \<noteq> [] then
        [CHR 0x22] @ run @ [CHR 0x22, CHR '':''] @ re_sub_keys [] cs
      else run @ c # re_sub_keys [] cs)"

text \<open>
  \<^verbatim>\<open>json.loads\<close> belongs to the Python library: the extraction takes it as a parameter
  that decodes a text, raises \<^verbatim>\<open>JSONDecodeError\<close>, or raises something else.
\<close>

datatype loads_result = Decoded pyval | JSONDecodeError | OtherError

definition extract_json_from_text :: "(string \<Rightarrow> loads_result) \<Rightarrow> string \<Rightarrow> pyval" where
  "extract_json_from_text loads text =
     (case re_search_json text of
        None \<Rightarrow> PNone
      | Some json_str \<Rightarrow>
          (case loads json_str of
             Decoded v \<Rightarrow> v
           | JSONDecodeError \<Rightarrow>
               (case loads (re_sub_keys [] (replace_quotes json_str)) of
                  Decoded v \<Rightarrow> v
                | JSONDecodeError \<Rightarrow> PNone
                | OtherError \<Rightarrow> PNone)
           | OtherError \<Rightarrow> PNone))"

text \<open>
  The part of \<^verbatim>\<open>plan_action\<close> that works on the text of the first candidate: strip it,
  report an empty text, extract, else decode the whole text, else wrap it.
\<close>

definition plan_action_text :: "(string \<Rightarrow> loads_result) \<Rightarrow> pyval \<Rightarrow> string \<Rightarrow> pyval" where
  "plan_action_text loads data joined =
     (let text = py_strip joined
      in if text = [] then PDict [(''error'', PStr ''Empty Gemini response''), (''raw'', data)]
         else
           (let parsed = extract_json_from_text loads text
            in if parsed \<noteq> PNone then parsed
               else (case loads text of
                       Decoded v \<Rightarrow> v
                     | JSONDecodeError \<Rightarrow> PDict [(''raw_text'', PStr text)]
                     | OtherError \<Rightarrow> PDict [(''raw_text'', PStr text)])))"

text \<open>
  The specification's wording, for comparison: the first balanced \<^verbatim>\<open>{...}\<close> or
  \<^verbatim>\<open>[...]\<close> span. \<open>balanced_span\<close> reads on while closing brackets are owed.
\<close>

fun balanced_span :: "char list \<Rightarrow> string \<Rightarrow> string option" where
  "balanced_span owed [] = None"
| "balanced_span owed (c # cs) =
     (if c = CHR ''{'' then map_option ((#) c) (balanced_span (CHR ''}'' # owed) cs)
      else if c = CHR ''['' then map_option ((#) c) (balanced_span (CHR '']'' # owed) cs)
      else
        (case owed of
           [] \<Rightarrow> None
         | e # rest \<Rightarrow>
             (if c = e then
                (if rest = [] then Some [c] else map_option ((#) c) (balanced_span rest cs))
              else if c = CHR ''}'' \<or> c = CHR '']'' then None
              else map_option ((#) c) (balanced_span owed cs))))"

fun spec_first_balanced_span :: "string \<Rightarrow> string option" where
  "spec_first_balanced_span [] = None"
| "spec_first_balanced_span (c # cs) =
     (if c = CHR ''{'' \<or> c = CHR ''['' then
        (case balanced_span [] (c # cs) of
           Some m \<Rightarrow> Some m
         | None \<Rightarrow> spec_first_balanced_span cs)
      else spec_first_balanced_span cs)"

text \<open>
  \<^verbatim>\<open>json.loads\<close> on the texts of the sample response below: it decodes the array
  \<^verbatim>\<open>[1, 2]\<close> and raises \<^verbatim>\<open>JSONDecodeError\<close> on the other texts, none of which is JSON.
\<close>

definition loads_sample :: "string \<Rightarrow> loads_result" where
  "loads_sample s = (if s = ''[1, 2]'' then Decoded (PList [PInt 1, PInt 2]) else JSONDecodeError)"

section \<open>Session Manager and the run: \<^verbatim>\<open>Agent.run\<close>\<close>

text \<open>\<^verbatim>\<open>needle in haystack\<close> on strings.\<close>

fun contains :: "string \<Rightarrow> string \<Rightarrow> bool" where
  "contains [] k = (k = [])"
| "contains (c # cs) k = (startswith (c # cs) k \<or> contains cs k)"

text \<open>
  The loop over the cookies in \<^verbatim>\<open>is_logged_in\<close>: a session-like name was found, the
  cookies ran out, or \<^verbatim>\<open>c["name"].lower()\<close> raised on a malformed cookie (\<open>None\<close>).
\<close>

fun cookies_probe :: "pyval list \<Rightarrow> bool option" where
  "cookies_probe [] = Some False"
| "cookies_probe (c # cs) =
     (case c of
        PDict d \<Rightarrow>
          (case map_of d ''name'' of
             Some (PStr n) \<Rightarrow>
               (if list_ex (contains (py_lower n)) [''session'', ''auth'', ''token'', ''jwt'', ''sid'']
                then Some True else cookies_probe cs)
           | _ \<Rightarrow> None)
      | _ \<Rightarrow> None)"

text \<open>
  \<^verbatim>\<open>is_logged_in\<close>: both \<^verbatim>\<open>try\<close> blocks swallow every exception, so the probe always
  answers; the answer is marked in the log.
\<close>

definition is_logged_in :: "'w responder \<Rightarrow> 'w state \<Rightarrow> bool \<times> 'w state" where
  "is_logged_in W st =
     (case do_call W ContextCookies st of
        (r, st1) \<Rightarrow>
          (if (case r of Return (PList cs) \<Rightarrow> cookies_probe cs = Some True | _ \<Rightarrow> False)
           then (True, mark (Probed True) st1)
           else
             (case do_call W PageContent st1 of
                (r2, st2) \<Rightarrow>
                  (case r2 of
                     Return (PStr html) \<Rightarrow>
                       (if \<not> list_ex (contains (py_lower html))
                                 [''sign in'', ''login'', ''password'', ''create account'']
                        then (True, mark (Probed True) st2)
                        else (False, mark (Probed False) st2))
                   | _ \<Rightarrow> (False, mark (Probed False) st2)))))"

text \<open>
  \<^verbatim>\<open>PlaywrightController.goto\<close>: nothing for a falsy URL or one that does not begin with
  \<^verbatim>\<open>http\<close>; a failed navigation is tried once more waiting for \<^verbatim>\<open>load\<close>, and whatever
  that raises is swallowed. A truthy non-string has no \<^verbatim>\<open>strip\<close>, which lands in the same
  \<^verbatim>\<open>except\<close>.
\<close>

definition goto :: "'w responder \<Rightarrow> pyval \<Rightarrow> 'w state \<Rightarrow> 'w state" where
  "goto W url st =
     (if \<not> truthy url then st
      else case url of
        PStr s \<Rightarrow>
          (let u = strip_where is_quote (py_strip s)
           in if \<not> startswith u ''http'' then st
              else (case do_call W (PageGoto (PStr u) True) st of
                      (Raise m, st1) \<Rightarrow> snd (do_call W (PageGoto (PStr u) False) st1)
                    | (Return v, st1) \<Rightarrow> st1))
      | _ \<Rightarrow> snd (do_call W (PageGoto url False) st))"

text \<open>\<^verbatim>\<open>re.search(r"https?://[^\s'\"]+", base_url)\<close>\<close>

definition url_char :: "char \<Rightarrow> bool" where
  "url_char c = (\<not> is_space c \<and> c \<noteq> CHR 0x27 \<and> c \<noteq> CHR 0x22)"

fun re_search_url :: "string \<Rightarrow> string option" where
  "re_search_url [] = None"
| "re_search_url (c # cs) =
     (if startswith (c # cs) ''https://'' \<and> takeWhile url_char (drop 8 (c # cs)) \<noteq> []
      then Some (''https://'' @ takeWhile url_char (drop 8 (c # cs)))
      else if startswith (c # cs) ''http://'' \<and> takeWhile url_char (drop 7 (c # cs)) \<noteq> []
      then Some (''http://'' @ takeWhile url_char (drop 7 (c # cs)))
      else re_search_url cs)"

text \<open>\<^verbatim>\<open>s.rstrip('/')\<close>\<close>

definition rstrip_slash :: "string \<Rightarrow> string" where
  "rstrip_slash s = rev (dropWhile (\<lambda>c. c = CHR ''/'') (rev s))"

text \<open>
  What the run takes from the Python library: \<^verbatim>\<open>str\<close> of a value and \<^verbatim>\<open>json.loads\<close>.
\<close>

record pylib =
  str_of :: "pyval \<Rightarrow> string"
  json_loads :: "string \<Rightarrow> loads_result"

text \<open>
  The URL a planner reply stands for:
  \<^verbatim>\<open>resp.get("url") or str(resp.get("raw_text", "")).strip()\<close> for a dict,
  \<^verbatim>\<open>str(resp).strip()\<close> otherwise. Under \<^verbatim>\<open>"url"\<close> may stand any truthy value.
\<close>

definition reply_url :: "pylib \<Rightarrow> pyval \<Rightarrow> pyval" where
  "reply_url L resp =
     (case resp of
        PDict d \<Rightarrow>
          py_or (dict_get d ''url'')
                (PStr (py_strip (str_of L (dict_get_default d ''raw_text'' (PStr '''')))))
      | _ \<Rightarrow> PStr (py_strip (str_of L resp)))"

text \<open>\<^verbatim>\<open>_clean_url\<close> on whatever value it is handed.\<close>

definition clean_url_val :: "pyval \<Rightarrow> py_exn + string" where
  "clean_url_val url =
     (if \<not> truthy url then Inr []
      else case url of
        PStr s \<Rightarrow> Inr (clean_url s)
      | _ \<Rightarrow> Inl (AttributeError url ''strip''))"

text \<open>
  The base URL of the manual login: the first \<^verbatim>\<open>http(s)://\<close> match in the reply if there
  is one, cleaned, and Google when nothing is left. \<^verbatim>\<open>re.search\<close> raises on a value that
  is not a string.
\<close>

definition base_url_of :: "pylib \<Rightarrow> pyval \<Rightarrow> py_exn + string" where
  "base_url_of L base_resp =
     (case reply_url L base_resp of
        PStr s \<Rightarrow>
          (let base_url = (case re_search_url s of Some m \<Rightarrow> m | None \<Rightarrow> s);
               cleaned = clean_url base_url
           in Inr (if cleaned = [] then ''https://www.google.com'' else cleaned))
      | _ \<Rightarrow> Inl (TypeError ''expected string or bytes-like object''))"

text \<open>
  The polling loop of the manual login, \<^verbatim>\<open>MANUAL_LOGIN_TIMEOUT = 120\<close> seconds: while
  less than the timeout has passed since \<open>start_time\<close>, probe; on success remove the
  banner and save the session (both swallow their exceptions), else sleep 3 seconds.
  It returns \<open>logged_in\<close>.
\<close>

function manual_login_loop :: "'w responder \<Rightarrow> nat \<Rightarrow> 'w state \<Rightarrow> bool \<times> 'w state" where
  "manual_login_loop W start_time st =
     (if now st - start_time < 120000 then
        (case is_logged_in W st of
           (True, st1) \<Rightarrow>
             (True, snd (do_call W SaveStorageState (snd (do_call W RemoveLoginBanner st1))))
         | (False, st1) \<Rightarrow> manual_login_loop W start_time (pause 3000 st1))
      else (False, st))"
  by pat_completeness auto
termination
proof (relation "measure (\<lambda>(W, start_time, st). (start_time + 120000) - now st)", goal_cases)
  case 1
  show ?case by simp
next
  case (2 W start_time st x y)
  have "now st \<le> now (snd (is_logged_in W st))"
    by (auto simp: is_logged_in_def do_call_def mark_def
        split: prod.splits resp.splits pyval.splits if_splits)
  then have "now st \<le> now y" using 2(2) by (metis snd_conv)
  then show ?case using 2(1) by (simp add: pause_def)
qed

text \<open>
  Steps 1 and 2 of the run: open the start URL, and when a cookie file exists replay it
  and probe; a failed probe deletes the file (which may raise). It returns \<open>logged_in\<close>.
  \<^verbatim>\<open>os.path.exists\<close> does not raise: any failure is \<open>False\<close>.
\<close>

definition cookie_login :: "'w responder \<Rightarrow> pyval \<Rightarrow> 'w state \<Rightarrow> (py_exn + bool) \<times> 'w state" where
  "cookie_login W start_url st =
     (case do_call W CookiesFileExists (pause 2000 (goto W start_url st)) of
        (r, st1) \<Rightarrow>
          (if (case r of Return v \<Rightarrow> truthy v | Raise m \<Rightarrow> False) then
             (case is_logged_in W
                     (pause 3000
                        (goto W (py_or start_url (PStr ''https://www.google.com''))
                           (snd (do_call W PreloadCookies st1)))) of
                (True, st2) \<Rightarrow> (Inr True, st2)
              | (False, st2) \<Rightarrow>
                  (case do_call W RemoveCookiesFile st2 of
                     (Raise m, st3) \<Rightarrow> (Inl (ExternalError m), st3)
                   | (Return v, st3) \<Rightarrow> (Inr False, st3)))
           else (Inr False, st1)))"

text \<open>
  Step 3: ask the planner for the base URL, open its \<^verbatim>\<open>/login\<close> page, show the banner
  and poll. It returns \<open>logged_in\<close>.
\<close>

definition manual_login ::
  "pylib \<Rightarrow> 'w responder \<Rightarrow> pyval \<Rightarrow> 'w state \<Rightarrow> (py_exn + bool) \<times> 'w state" where
  "manual_login L W task st =
     (case do_call W (PlanAction (BaseUrlPrompt task)) st of
        (Raise m, st1) \<Rightarrow> (Inl (ExternalError m), st1)
      | (Return base_resp, st1) \<Rightarrow>
          (case base_url_of L base_resp of
             Inl e \<Rightarrow> (Inl e, st1)
           | Inr base_url \<Rightarrow>
               (case manual_login_loop W
                       (now (snd (do_call W ShowLoginBanner
                                    (goto W (PStr (rstrip_slash base_url @ ''/login'')) st1))))
                       (snd (do_call W ShowLoginBanner
                               (goto W (PStr (rstrip_slash base_url @ ''/login'')) st1))) of
                  (logged_in, st2) \<Rightarrow> (Inr logged_in, st2))))"

text \<open>
  \<^verbatim>\<open>_capture_unique_state\<close>: capture only when the DOM differs from the last one seen; a
  failing read of the DOM gives the placeholder.
\<close>

definition capture_unique_state ::
  "'w responder \<Rightarrow> string \<Rightarrow> 'w state \<Rightarrow> (pyval \<times> pyval) \<times> 'w state" where
  "capture_unique_state W label st =
     (case do_call W PageContent st of
        (Raise m, st1) \<Rightarrow> ((PStr '''', PNone), st1)
      | (Return dom_snapshot, st1) \<Rightarrow>
          (if last_dom_snapshot st1 \<noteq> dom_snapshot
           then capture W label (st1\<lparr>last_dom_snapshot := dom_snapshot\<rparr>)
           else ((dom_snapshot, PNone), st1)))"

text \<open>
  The normalisation of the planner's plan reply: a string is decoded (a failure ends the
  run with an error document), a dict is unwrapped from \<^verbatim>\<open>plan\<close> or \<^verbatim>\<open>steps\<close>.
\<close>

definition normalize_plan :: "pylib \<Rightarrow> pyval \<Rightarrow> pyval + pyval" where
  "normalize_plan L ui_plan_resp =
     (case ui_plan_resp of
        PStr s \<Rightarrow>
          (case json_loads L s of
             Decoded v \<Rightarrow> Inr v
           | JSONDecodeError \<Rightarrow>
               Inl (PDict [(''error'', PStr ''ui_plan_not_parseable''), (''raw'', ui_plan_resp)])
           | OtherError \<Rightarrow>
               Inl (PDict [(''error'', PStr ''ui_plan_not_parseable''), (''raw'', ui_plan_resp)]))
      | PDict d \<Rightarrow> Inr (py_or (py_or (dict_get d ''plan'') (dict_get d ''steps'')) ui_plan_resp)
      | _ \<Rightarrow> Inr ui_plan_resp)"

text \<open>
  Step 4, reached only with \<open>logged_in\<close>: the task URL the planner names, cleaned, or the
  URL of the current page when nothing usable came back.
\<close>

definition task_url ::
  "pylib \<Rightarrow> 'w responder \<Rightarrow> pyval \<Rightarrow> 'w state \<Rightarrow> (py_exn + pyval) \<times> 'w state" where
  "task_url L W task st =
     (case do_call W (PlanAction (TaskUrlPrompt task)) st of
        (Raise m, st1) \<Rightarrow> (Inl (ExternalError m), st1)
      | (Return resp, st1) \<Rightarrow>
          (case clean_url_val (reply_url L resp) of
             Inl e \<Rightarrow> (Inl e, st1)
           | Inr cleaned \<Rightarrow>
               (if cleaned = [] then
                  (case do_call W PageUrl st1 of
                     (Raise m, st2) \<Rightarrow> (Inl (ExternalError m), st2)
                   | (Return v, st2) \<Rightarrow> (Inr v, st2))
                else (Inr (PStr cleaned), st1))))"

text \<open>
  Step 7: read the DOM, request the plan, normalise and execute it, close the browser
  and return the report. The calls outside every \<^verbatim>\<open>try\<close> pass their exception on.
\<close>

definition plan_phase ::
  "pylib \<Rightarrow> 'w responder \<Rightarrow> pyval \<Rightarrow> pyval \<Rightarrow> pyval \<Rightarrow> 'w state \<Rightarrow> (py_exn + pyval) \<times> 'w state" where
  "plan_phase L W start_url task step_meta st =
     (case do_call W PageContent st of
        (Raise m, st1) \<Rightarrow> (Inl (ExternalError m), st1)
      | (Return dom_snapshot, st1) \<Rightarrow>
          (case do_call W (PlanAction (UiPlanPrompt task dom_snapshot)) st1 of
             (Raise m, st2) \<Rightarrow> (Inl (ExternalError m), st2)
           | (Return ui_plan_resp, st2) \<Rightarrow>
               (case normalize_plan L ui_plan_resp of
                  Inl err \<Rightarrow> (Inr err, st2)
                | Inr ui_plan \<Rightarrow>
                    (case execute_ui_plan W ui_plan 2 st2 of
                       (Inl e, st3) \<Rightarrow> (Inl e, st3)
                     | (Inr execution_results, st3) \<Rightarrow>
                         (case do_call W BrowserClose st3 of
                            (Raise m, st4) \<Rightarrow> (Inl (ExternalError m), st4)
                          | (Return v, st4) \<Rightarrow>
                              (Inr (PDict
                                 [(''task'', task), (''start_url'', start_url),
                                  (''steps'',
                                   PList [step_meta,
                                          PDict [(''ui_plan_execution'', execution_results)]])]),
                               st4))))))"

text \<open>
  Steps 4 to 7: the task URL, the navigation and the two captures, the metadata of
  step 0, then the plan.
\<close>

definition task_phase ::
  "pylib \<Rightarrow> 'w responder \<Rightarrow> pyval \<Rightarrow> pyval \<Rightarrow> 'w state \<Rightarrow> (py_exn + pyval) \<times> 'w state" where
  "task_phase L W start_url task st =
     (case task_url L W task st of
        (Inl e, st1) \<Rightarrow> (Inl e, st1)
      | (Inr task_specific_url, st1) \<Rightarrow>
          (case do_call W
                  (SaveStepMetadata
                     (PDict [(''step'', PInt 0), (''action'', PStr ''task_page_ready''),
                             (''url'', task_specific_url)]))
                  (snd (capture W ''aligned_authenticated_page''
                          (snd (capture_unique_state W ''task_page_loaded''
                                  (goto W task_specific_url st1))))) of
             (Raise m, st2) \<Rightarrow> (Inl (ExternalError m), st2)
           | (Return v, st2) \<Rightarrow>
               plan_phase L W start_url task
                 (PDict [(''step'', PInt 0), (''action'', PStr ''task_page_ready''),
                         (''url'', task_specific_url)])
                 st2))"

text \<open>
  \<^verbatim>\<open>Agent.run\<close>, from the first navigation on (the browser is taken as launched): the
  cookie login, the manual login when that did not log in, the abort with
  \<^verbatim>\<open>{"error": "login_timeout"}\<close> when the manual login did not either, else the task
  phase.
\<close>

definition run ::
  "pylib \<Rightarrow> 'w responder \<Rightarrow> pyval \<Rightarrow> pyval \<Rightarrow> 'w state \<Rightarrow> (py_exn + pyval) \<times> 'w state" where
  "run L W start_url task st =
     (case cookie_login W start_url st of
        (Inl e, st1) \<Rightarrow> (Inl e, st1)
      | (Inr True, st1) \<Rightarrow> task_phase L W start_url task st1
      | (Inr False, st1) \<Rightarrow>
          (case manual_login L W task st1 of
             (Inl e, st2) \<Rightarrow> (Inl e, st2)
           | (Inr True, st2) \<Rightarrow> task_phase L W start_url task st2
           | (Inr False, st2) \<Rightarrow>
               (Inr (PDict [(''error'', PStr ''login_timeout'')]),
                snd (do_call W RemoveLoginBanner st2))))"

text \<open>
  The events of the Plan Executor: the request for the plan, and every pass of a step
  through the retry loop. \<open>plan_after_login\<close> reads a log from the left and holds when no
  such event stands before the first successful probe (\<open>a\<close>: already authenticated).
\<close>

fun is_plan_event :: "event \<Rightarrow> bool" where
  "is_plan_event (Attempt i k) = True"
| "is_plan_event (Called (PlanAction (UiPlanPrompt t d)) r) = True"
| "is_plan_event e = False"

fun plan_after_login :: "bool \<Rightarrow> event list \<Rightarrow> bool" where
  "plan_after_login a [] = True"
| "plan_after_login a (e # es) =
     (if is_plan_event e then a \<and> plan_after_login a es
      else plan_after_login (a \<or> e = Probed True) es)"

definition plain_lib :: pylib where
  "plain_lib =
     \<lparr>str_of = (\<lambda>v. case v of PStr s \<Rightarrow> s | _ \<Rightarrow> ''None''),
      json_loads = (\<lambda>s. JSONDecodeError)\<rparr>"

declare manual_login_loop.simps [simp del]

text \<open>
  The log only grows (\<open>log_grows\<close>); and a computation is \<open>quiet\<close> when it appended no
  event of the Plan Executor.
\<close>

definition log_grows :: "'w state \<Rightarrow> 'w state \<Rightarrow> bool" where
  "log_grows st st' = (take (length (log st)) (log st') = log st)"

definition quiet :: "'w state \<Rightarrow> 'w state \<Rightarrow> bool" where
  "quiet st st' = (log_grows st st' \<and> \<not> list_ex is_plan_event (emitted st st'))"

text \<open>
  A site whose pages take 35 seconds to read and keep showing the login form: no
  cookies, no cookie file. The planner names Linear as the base site.
\<close>

definition slow_login_wall :: "unit responder" where
  "slow_login_wall u c =
     (case c of
        ContextCookies \<Rightarrow> (Return (PList []), 100, ())
      | PageContent \<Rightarrow> (Return (PStr ''<h1>Login</h1>''), 35000, ())
      | CookiesFileExists \<Rightarrow> (Return (PBool False), 100, ())
      | PlanAction p \<Rightarrow> (Return (PDict [(''raw_text'', PStr ''https://linear.app'')]), 100, ())
      | _ \<Rightarrow> (Return PNone, 100, ()))"

text \<open>
  The same site with no cookie file, where the planner answers the base-URL prompt with
  \<^verbatim>\<open>{"url": 5}\<close>.
\<close>

definition numeric_url_reply :: "unit responder" where
  "numeric_url_reply u c =
     (case c of
        ContextCookies \<Rightarrow> (Return (PList []), 100, ())
      | PageContent \<Rightarrow> (Return (PStr ''<h1>Login</h1>''), 100, ())
      | CookiesFileExists \<Rightarrow> (Return (PBool False), 100, ())
      | PlanAction p \<Rightarrow> (Return (PDict [(''url'', PInt 5)]), 100, ())
      | _ \<Rightarrow> (Return PNone, 100, ()))"

section \<open>How the log grows\<close>

lemma calls_only_iff:
  "calls_only st st' \<longleftrightarrow> (\<exists>es. log st' = log st @ es \<and> list_all is_called es)"
proof
  assume c: "calls_only st st'"
  have "take (length (log st)) (log st') @ drop (length (log st)) (log st') = log st'"
    by (rule append_take_drop_id)
  moreover have "take (length (log st)) (log st') = log st"
    using c by (simp add: calls_only_def)
  ultimately have "log st' = log st @ emitted st st'"
    by (simp add: emitted_def)
  then show "\<exists>es. log st' = log st @ es \<and> list_all is_called es"
    using c by (auto simp: calls_only_def)
next
  assume "\<exists>es. log st' = log st @ es \<and> list_all is_called es"
  then show "calls_only st st'"
    by (auto simp: calls_only_def emitted_def)
qed

lemma calls_only_refl [simp]: "calls_only st st"
  by (simp add: calls_only_iff)

lemma calls_only_trans: "calls_only a b \<Longrightarrow> calls_only b c \<Longrightarrow> calls_only a c"
  by (auto simp: calls_only_iff)

lemma calls_only_do_call: "calls_only st (snd (do_call W c st))"
  by (auto simp: calls_only_iff do_call_def split: prod.splits)

lemma calls_only_try_call:
  assumes "\<And>v s. calls_only s (snd (k v s))"
  shows "calls_only st (snd (try_call W c st k))"
proof (cases "do_call W c st")
  case (Pair r st1)
  have a: "calls_only st st1" using calls_only_do_call [of st W c] Pair by simp
  show ?thesis
  proof (cases r)
    case (Raise m)
    then show ?thesis using Pair a by (simp add: try_call_def)
  next
    case (Return v)
    then show ?thesis using Pair a calls_only_trans [OF a assms [of st1 v]]
      by (simp add: try_call_def)
  qed
qed

lemma calls_only_Inr: "calls_only st (snd (Inr x, st))"
  by simp

lemma calls_only_if:
  "(c \<Longrightarrow> calls_only st (snd a)) \<Longrightarrow> (\<not> c \<Longrightarrow> calls_only st (snd b))
     \<Longrightarrow> calls_only st (snd (if c then a else b))"
  by simp

lemma calls_only_execute_action_try: "calls_only st (snd (execute_action_try W a t st))"
  unfolding execute_action_try_def Let_def
  by (intro calls_only_if calls_only_try_call calls_only_Inr)

lemma calls_only_execute_action_try_eq:
  "execute_action_try W a t st = (x, st') \<Longrightarrow> calls_only st st'"
  using calls_only_execute_action_try [of st W a t] by simp

lemma calls_only_execute_action: "calls_only st (snd (execute_action W a st))"
  by (auto simp: execute_action_def Let_def split: pyval.splits prod.splits sum.splits
      dest: calls_only_execute_action_try_eq)

lemma calls_only_run_action_dict: "calls_only st (snd (run_action_dict W d r st))"
  using calls_only_execute_action [of st W "PDict d"]
  by (auto simp: run_action_dict_def split: prod.splits sum.splits)

lemma calls_only_attempt_try: "calls_only st (snd (attempt_try W s t sel v r st))"
  unfolding attempt_try_def
  by (intro calls_only_if calls_only_try_call calls_only_Inr calls_only_run_action_dict)

lemma called_filters:
  "list_all is_called es \<Longrightarrow>
     filter (is_attempt i) es = [] \<and> filter is_pause es = []"
proof (induction es)
  case Nil
  then show ?case by simp
next
  case (Cons e es)
  then show ?case by (cases e) auto
qed

lemma calls_only_counts:
  assumes "calls_only st st'"
  shows "attempts_of i st' = attempts_of i st" and "pauses_of st' = pauses_of st"
  using assms called_filters
  by (auto simp: calls_only_iff attempts_of_def pauses_of_def)

lemma mark_counts:
  "attempts_of i (mark (Attempt j k) st) = attempts_of i st + (if i = j then 1 else 0)"
  "pauses_of (mark (Attempt j k) st) = pauses_of st"
  "raises_of (mark (Attempt j k) st) = raises_of st"
  by (simp_all add: mark_def attempts_of_def pauses_of_def raises_of_def)

lemma pause_counts:
  "attempts_of i (pause ms st) = attempts_of i st"
  "pauses_of (pause ms st) = pauses_of st + 1"
  "raises_of (pause ms st) = raises_of st"
  by (simp_all add: pause_def attempts_of_def pauses_of_def raises_of_def)

lemma attempt_try_counts:
  assumes "attempt_try W s t sel v r st = (x, st')"
  shows "attempts_of i st' = attempts_of i st" and "pauses_of st' = pauses_of st"
  using calls_only_counts [OF calls_only_attempt_try [of st W s t sel v r]] assms
  by simp_all

section \<open>The retry loop\<close>



lemma exception_result_fails [simp]: "\<not> attempt_succeeds (exception_result e)"
  by (simp add: attempt_succeeds_def exception_result_def error1_def dict_get_def)

lemma attempt_loop_Suc:
  assumes "attempt_try W s t sel v r0 (mark (Attempt idx k) st) = (x, st1)"
  shows "attempt_loop W idx s t sel v (Suc n) k r0 st =
          (case x of
             Inr (Broke r) \<Rightarrow> (r, st1)
           | Inr (Fell r) \<Rightarrow>
               (if attempt_succeeds r then (r, st1)
                else attempt_loop W idx s t sel v n (Suc k) r (pause 500 st1))
           | Inl e \<Rightarrow>
               attempt_loop W idx s t sel v n (Suc k) (exception_result e) (pause 500 st1))"
  using assms by (simp split: sum.splits flow.splits)



section \<open>The plan loop\<close>

lemma calls_only_recover: "calls_only st (snd (recover W step result st))"
proof -
  obtain r st1 where c1: "do_call W PageContent st = (r, st1)"
    by (cases "do_call W PageContent st")
  define dom where "dom = (case r of Raise m \<Rightarrow> PStr [] | Return v \<Rightarrow> v)"
  obtain r2 st2 where
    c2: "do_call W (PlanAction (FeedbackPrompt step result dom)) st1 = (r2, st2)"
    by (cases "do_call W (PlanAction (FeedbackPrompt step result dom)) st1")
  have a: "calls_only st st1" using calls_only_do_call [of st W PageContent] c1 by simp
  have b: "calls_only st1 st2"
    using calls_only_do_call [of st1 W "PlanAction (FeedbackPrompt step result dom)"] c2
    by simp
  have ab: "calls_only st st2" using calls_only_trans [OF a b] .
  show ?thesis
  proof (cases r2)
    case (Raise m)
    then show ?thesis using c1 c2 ab by (simp add: recover_def dom_def)
  next
    case (Return repl)
    define ra where "ra = (if is_dict repl then val_get repl ''action'' else PNone)"
    show ?thesis
    proof (cases "truthy ra")
      case False
      then show ?thesis using c1 c2 ab Return by (simp add: recover_def dom_def ra_def)
    next
      case True
      obtain y st3 where c3: "execute_action W ra st2 = (y, st3)"
        by (cases "execute_action W ra st2")
      have "calls_only st2 st3" using calls_only_execute_action [of st2 W ra] c3 by simp
      then have "calls_only st st3" using calls_only_trans [OF ab] by blast
      then show ?thesis using c1 c2 Return True c3
        by (cases y) (simp_all add: recover_def dom_def ra_def)
    qed
  qed
qed



section \<open>Claims about the Plan Executor\<close>

text \<open>
  C8. A plan that is not a list makes \<^verbatim>\<open>execute_ui_plan\<close> return
  \<^verbatim>\<open>{"error": "ui_plan_not_list", "raw": ui_plan}\<close> at once: the state, and with it the log
  of calls, attempts and pauses, is the one it was given, so no action was executed and
  no step record was built.
\<close>

theorem execute_ui_plan_not_list:
  "\<not> is_list ui_plan \<Longrightarrow>
     execute_ui_plan W ui_plan max_retries st =
       (Inr (PDict [(''error'', PStr ''ui_plan_not_list''), (''raw'', ui_plan)]), st)"
  by (cases ui_plan) (simp_all add: execute_ui_plan_def)

theorem execute_ui_plan_not_list_witness:
  "\<not> is_list (PDict [(''verdict'', PStr ''done'')])
   \<and> execute_ui_plan flaky_click (PDict [(''verdict'', PStr ''done'')]) 2 (init_state 0) =
       (Inr (PDict [(''error'', PStr ''ui_plan_not_list''),
                    (''raw'', PDict [(''verdict'', PStr ''done'')])]), init_state 0)
   \<and> log (snd (execute_ui_plan flaky_click (PDict [(''verdict'', PStr ''done'')]) 2
                 (init_state 0))) = []"
  using execute_ui_plan_not_list [of "PDict [(''verdict'', PStr ''done'')]" flaky_click 2
      "init_state 0"]
  by (simp add: init_state_def)





section \<open>Claims about the Action Executor\<close>

lemma execute_action_try_raise:
  "execute_action_try W a t st = (x, st') \<Longrightarrow> Called c (Raise m) \<in> set (emitted st st')
     \<Longrightarrow> x = Inl (ExternalError m)"
  by (auto simp: execute_action_try_def try_call_def do_call_def emitted_def Let_def
      split: if_splits prod.splits resp.splits)

lemma execute_action_try_tagged:
  "execute_action_try W a t st = (Inr r, st') \<Longrightarrow> well_tagged r"
  by (auto simp: execute_action_try_def try_call_def do_call_def Let_def status1_def error1_def
      dict_has_def
      split: if_splits prod.splits resp.splits)

lemma execute_action_dict_cases:
  obtains "a = []" and "execute_action W (PDict a) st = (Inr (error1 ''no_action_provided''), st)"
  | e st' where "a \<noteq> []"
      and "execute_action_try W a (py_or (dict_get a ''type'') (dict_get a ''action'')) st
             = (Inl e, st')"
      and "execute_action W (PDict a) st
             = (Inr (error1 (''execute_action_failed:'' @ exn_text e)), st')"
  | r st' where "a \<noteq> []"
      and "execute_action_try W a (py_or (dict_get a ''type'') (dict_get a ''action'')) st
             = (Inr r, st')"
      and "execute_action W (PDict a) st = (Inr r, st')"
proof (cases "a = []")
  case True
  then show ?thesis using that(1) by (simp add: execute_action_def)
next
  case False
  obtain x st' where
    t: "execute_action_try W a (py_or (dict_get a ''type'') (dict_get a ''action'')) st = (x, st')"
    by (cases "execute_action_try W a (py_or (dict_get a ''type'') (dict_get a ''action'')) st")
  show ?thesis
  proof (cases x)
    case (Inl e)
    then show ?thesis using that(2) [of e st'] t False by (simp add: execute_action_def)
  next
    case (Inr r)
    then show ?thesis using that(3) [of r st'] t False by (simp add: execute_action_def)
  qed
qed

lemma execute_action_dict_tagged:
  "execute_action W (PDict a) st = (x, st') \<Longrightarrow> \<exists>r. x = Inr r \<and> well_tagged r"
proof (cases rule: execute_action_dict_cases [of a W st])
  case 1
  assume "execute_action W (PDict a) st = (x, st')"
  with 1 show ?thesis by (auto simp: error1_def dict_has_def)
next
  case (2 e st2)
  assume "execute_action W (PDict a) st = (x, st')"
  with 2 show ?thesis by (auto simp: error1_def dict_has_def)
next
  case (3 r st2)
  assume "execute_action W (PDict a) st = (x, st')"
  with 3 execute_action_try_tagged [of W a _ st r st2] show ?thesis by auto
qed

text \<open>
  C5. Given a dict, \<^verbatim>\<open>execute_action\<close> returns a result dict, never an exception; and
  when a call to the driver raised while the action was performed, the result is
  \<^verbatim>\<open>{"error": "execute_action_failed:<text of the exception>"}\<close>.
\<close>

theorem execute_action_never_raises:
  "\<exists>r st'. execute_action W (PDict a) st = (Inr r, st') \<and> is_dict r
     \<and> (\<forall>c m. Called c (Raise m) \<in> set (emitted st st')
            \<longrightarrow> r = error1 (''execute_action_failed:'' @ m))"
proof (cases rule: execute_action_dict_cases [of a W st])
  case 1
  then show ?thesis by (simp add: error1_def emitted_def)
next
  case (2 e st2)
  have "e = ExternalError m" if "Called c (Raise m) \<in> set (emitted st st2)" for c m
    using execute_action_try_raise [OF 2(2) that] by simp
  then show ?thesis using 2(3) by (auto simp: error1_def)
next
  case (3 r st2)
  have "Called c (Raise m) \<notin> set (emitted st st2)" for c m
    using execute_action_try_raise [OF 3(2), of c m] by auto
  moreover have "is_dict r" using execute_action_try_tagged [OF 3(2)] by (cases r) auto
  ultimately show ?thesis using 3(3) by auto
qed

theorem execute_action_never_raises_witness:
  "execute_action page_closed (PDict [(''type'', PStr ''click''), (''selector'', PStr ''#go'')])
     (init_state ())
   = (Inr (error1 ''execute_action_failed:Target page, context or browser has been closed''),
      (init_state ())\<lparr>now := 1,
         log := [Called (QuerySelector (PStr ''#go''))
                   (Raise ''Target page, context or browser has been closed'')]\<rparr>)
   \<and> Called (QuerySelector (PStr ''#go''))
        (Raise ''Target page, context or browser has been closed'')
      \<in> set (emitted (init_state ())
            ((init_state ())\<lparr>now := 1,
               log := [Called (QuerySelector (PStr ''#go''))
                         (Raise ''Target page, context or browser has been closed'')]\<rparr>))"
proof -
  have "execute_action page_closed (PDict [(''type'', PStr ''click''), (''selector'', PStr ''#go'')])
          (init_state ())
        = (Inr (error1 ''execute_action_failed:Target page, context or browser has been closed''),
           (init_state ())\<lparr>now := 1,
              log := [Called (QuerySelector (PStr ''#go''))
                        (Raise ''Target page, context or browser has been closed'')]\<rparr>)"
    by code_simp
  then show ?thesis
    using execute_action_never_raises [of page_closed
        "[(''type'', PStr ''click''), (''selector'', PStr ''#go'')]" "init_state ()"]
    by (simp add: emitted_def init_state_def)
qed

section \<open>Steps the retry loop leaves without a result, and the recovery path\<close>

text \<open>
  C6. A \<^verbatim>\<open>click\<close> step with neither a selector nor \<^verbatim>\<open>by_text\<close> leaves \<^verbatim>\<open>action_dict\<close>
  empty, so nothing is executed in any of the 3 passes and the record appended for the
  step holds \<^verbatim>\<open>None\<close>: not a dict, and neither \<^verbatim>\<open>status\<close> nor \<^verbatim>\<open>error\<close> is set.
  This holds whatever the page does.
\<close>

theorem bare_click_records_none:
  "execute_ui_plan W (PList [bare_click_step]) 2 st =
     (Inr (PList [PDict [(''step_index'', PInt 0), (''step'', bare_click_step),
                         (''result'', PNone)]]),
      st\<lparr>now := now st + 1500,
         log := log st @ [Attempt 0 0, Paused 500, Attempt 0 1, Paused 500,
                          Attempt 0 2, Paused 500]\<rparr>)
   \<and> \<not> is_dict PNone \<and> \<not> well_tagged PNone"
  by (simp add: execute_ui_plan_def bare_click_step_def numeral_3_eq_3 Let_def dict_get_def
      py_or_def attempt_try_def run_action_dict_def attempt_succeeds_def needs_recovery_def
      step_record_def mark_def pause_def)

text \<open>
  Every other way through the retry loop ends with a result in which exactly one of
  \<^verbatim>\<open>status\<close> and \<^verbatim>\<open>error\<close> is set, as long as at least one pass is made.
\<close>

lemma flow_tagged_try_call:
  assumes "\<And>v s. flow_tagged (fst (k v s))"
  shows "flow_tagged (fst (try_call W c st k))"
  using assms by (auto simp: try_call_def split: prod.splits resp.splits)

lemma flow_tagged_if:
  "(c \<Longrightarrow> flow_tagged (fst a)) \<Longrightarrow> (\<not> c \<Longrightarrow> flow_tagged (fst b))
     \<Longrightarrow> flow_tagged (fst (if c then a else b))"
  by simp

lemma flow_tagged_run_action_dict:
  "d \<noteq> [] \<Longrightarrow> flow_tagged (fst (run_action_dict W d r st))"
  using execute_action_dict_tagged [of W d st]
  by (auto simp: run_action_dict_def split: prod.splits sum.splits)

lemma attempt_try_tagged:
  assumes "\<not> (t = PStr ''click'' \<and> \<not> truthy sel \<and> \<not> truthy (dict_get s ''by_text''))"
  shows "flow_tagged (fst (attempt_try W s t sel v r0 st))"
  unfolding attempt_try_def
  apply (intro flow_tagged_if flow_tagged_try_call flow_tagged_run_action_dict)
  using assms apply (simp_all add: error1_def dict_has_def)
  done

lemma exception_result_tagged [simp]: "well_tagged (exception_result e)"
  by (simp add: exception_result_def error1_def dict_has_def)

lemma attempt_loop_tagged:
  assumes "\<not> (t = PStr ''click'' \<and> \<not> truthy sel \<and> \<not> truthy (dict_get s ''by_text''))"
  shows "attempt_loop W idx s t sel v n k r0 st = (res, st') \<Longrightarrow>
           (n = 0 \<and> res = r0) \<or> well_tagged res"
proof (induction n arbitrary: k r0 st)
  case 0
  then show ?case by simp
next
  case (Suc n)
  obtain x st1 where t: "attempt_try W s t sel v r0 (mark (Attempt idx k) st) = (x, st1)"
    by (cases "attempt_try W s t sel v r0 (mark (Attempt idx k) st)")
  have tg: "flow_tagged x"
    using attempt_try_tagged [OF assms, of W v r0 "mark (Attempt idx k) st"] t by simp
  note step = attempt_loop_Suc [OF t, of n]
  show ?case
  proof (cases x)
    case (Inl e)
    then have "attempt_loop W idx s t sel v n (Suc k) (exception_result e) (pause 500 st1)
                 = (res, st')"
      using Suc.prems step by simp
    from Suc.IH [OF this] show ?thesis by auto
  next
    case (Inr f)
    show ?thesis
    proof (cases f)
      case (Broke r)
      then show ?thesis using Suc.prems step Inr tg by simp
    next
      case (Fell r)
      show ?thesis
      proof (cases "attempt_succeeds r")
        case True
        then show ?thesis using Suc.prems step Inr Fell tg by simp
      next
        case False
        then have "attempt_loop W idx s t sel v n (Suc k) r (pause 500 st1) = (res, st')"
          using Suc.prems step Inr Fell by simp
        from Suc.IH [OF this] show ?thesis using tg Inr Fell by auto
      qed
    qed
  qed
qed

text \<open>
  C2. A step whose final result carries an error sends the feedback prompt. When the
  planner answers in the shape that prompt asks for,
  \<^verbatim>\<open>{"action": "click", "selector": "#ok"}\<close>, the value under \<^verbatim>\<open>"action"\<close> is the string
  \<^verbatim>\<open>"click"\<close>; \<^verbatim>\<open>execute_action\<close> is called with that string and raises
  \<^verbatim>\<open>AttributeError\<close> before its \<^verbatim>\<open>try\<close>. Nothing is executed on the page, no record is
  returned, and \<^verbatim>\<open>execute_ui_plan\<close> itself raises.
\<close>

theorem recovery_with_prompt_shaped_reply_raises:
  "execute_ui_plan suggest_click (PList [hover_step]) 2 (init_state ()) =
     (Inl (AttributeError (PStr ''click'') ''get''),
      (init_state ())\<lparr>now := 810,
         log := [Attempt 0 0,
                 Called PageContent (Return (PStr ''<html></html>'')),
                 Called (PlanAction (FeedbackPrompt hover_step (error1 ''hover_no_selector'')
                                       (PStr ''<html></html>'')))
                   (Return (PDict [(''action'', PStr ''click''), (''selector'', PStr ''#ok'')]))]\<rparr>)"
  by code_simp

text \<open>
  The parts of C2 that hold. Scenario C: a click whose selector matches nothing ends
  with the status \<^verbatim>\<open>no_element\<close>, one record, and no question to the planner.
\<close>

lemma scenario_C_run:
  "execute_ui_plan nothing_matches (PList [missing_step]) 2 (init_state ()) =
     (Inr (PList [PDict [(''step_index'', PInt 0), (''step'', missing_step),
                         (''result'', PDict [(''status'', PStr ''no_element''),
                                             (''selector'', PStr ''#missing'')])]]),
      (init_state ())\<lparr>now := 10,
         log := [Attempt 0 0, Called (QuerySelector (PStr ''#missing'')) (Return PNone)]\<rparr>)"
  by code_simp

text \<open>
  The recovery path asks the planner once; a reply whose \<^verbatim>\<open>"action"\<close> is itself a dict is
  executed once and gives one more record, a reply without a truthy \<^verbatim>\<open>"action"\<close> gives none.
\<close>

lemma recover_dict_action:
  assumes "do_call W PageContent st = (r, st1)"
    and "do_call W (PlanAction (FeedbackPrompt step result
            (case r of Raise m \<Rightarrow> PStr [] | Return v \<Rightarrow> v))) st1 = (Return repl, st2)"
    and "is_dict repl" and "val_get repl ''action'' = PDict a" and "a \<noteq> []"
  shows "\<exists>res st3. execute_action W (PDict a) st2 = (Inr res, st3)
           \<and> recover W step result st = (Inr [repl_record (PDict a) res], st3)"
proof -
  obtain x st3 where e: "execute_action W (PDict a) st2 = (x, st3)"
    by (cases "execute_action W (PDict a) st2")
  then obtain res where "x = Inr res" using execute_action_dict_tagged [OF e] by auto
  then show ?thesis using assms e by (simp add: recover_def)
qed

lemma recover_no_action:
  assumes "do_call W PageContent st = (r, st1)"
    and "do_call W (PlanAction (FeedbackPrompt step result
            (case r of Raise m \<Rightarrow> PStr [] | Return v \<Rightarrow> v))) st1 = (Return repl, st2)"
    and "\<not> (is_dict repl \<and> truthy (val_get repl ''action''))"
  shows "recover W step result st = (Inr [], st2)"
  using assms by (auto simp: recover_def)

section \<open>The kinds the agent performs itself\<close>

lemma attempt_try_break_eq:
  assumes "\<not> retried_kind t"
  shows "attempt_try W s t sel v r st =
     (if t = PStr ''select'' \<or> t = PStr ''select_option'' then
        (if truthy sel \<and> dict_has s ''value'' then
           try_call W (SelectOption sel (dict_get s ''value'')) st
             (\<lambda>_ s'. (Inr (Broke (PDict [(''status'', PStr ''selected''), (''selector'', sel),
                                          (''value'', dict_get s ''value'')])), s'))
         else (Inr (Broke (error1 ''select_missing_selector_or_value'')), st))
      else if t = PStr ''hover'' then
        (if truthy sel then
           try_call W (Hover sel) st
             (\<lambda>_ s'. (Inr (Broke (PDict [(''status'', PStr ''hovered''), (''selector'', sel)])), s'))
         else (Inr (Broke (error1 ''hover_no_selector'')), st))
      else
        (Inr (Broke (PDict [(''error'', PStr ''unknown_action''), (''provided'', PDict s)])), st))"
  using assms by (simp add: retried_kind_def attempt_try_def)

lemma try_call_raises:
  "try_call W c st (\<lambda>_ s'. (Inr (Broke b), s')) = (x, st1) \<Longrightarrow>
     (x = Inr (Broke b) \<and> raises_of st1 = raises_of st)
     \<or> (\<exists>e. x = Inl e \<and> raises_of st1 = raises_of st + 1)"
  by (auto simp: try_call_def do_call_def raises_of_def split: prod.splits resp.splits)

lemma attempt_try_break_kind:
  assumes "\<not> retried_kind t" and "attempt_try W s t sel v r st = (x, st1)"
  shows "(\<exists>b. x = Inr (Broke b) \<and> raises_of st1 = raises_of st)
         \<or> (\<exists>e. x = Inl e \<and> raises_of st1 = raises_of st + 1)"
  using assms(2) try_call_raises [of W _ st _ x st1]
  unfolding attempt_try_break_eq [OF assms(1)]
  by (auto split: if_splits)

lemma attempt_try_no_driver_call:
  assumes "\<not> retried_kind t"
    and "\<not> ((t = PStr ''select'' \<or> t = PStr ''select_option'') \<and> truthy sel \<and> dict_has s ''value'')"
    and "\<not> (t = PStr ''hover'' \<and> truthy sel)"
  shows "\<exists>b. attempt_try W s t sel v r st = (Inr (Broke b), st) \<and> needs_recovery b"
  using assms
  by (auto simp: retried_kind_def attempt_try_def needs_recovery_def error1_def dict_get_def)

lemma attempt_loop_break_kind:
  "\<not> retried_kind t \<Longrightarrow> attempt_loop W idx s t sel v n k r0 st = (res, st') \<Longrightarrow>
     raises_of st \<le> raises_of st'
     \<and> attempts_of idx st' = attempts_of idx st + min n (raises_of st' - raises_of st + 1)
     \<and> pauses_of st' + raises_of st = pauses_of st + raises_of st'"
proof (induction n arbitrary: k r0 st)
  case 0
  then show ?case by simp
next
  case (Suc n)
  obtain x st1 where t: "attempt_try W s t sel v r0 (mark (Attempt idx k) st) = (x, st1)"
    by (cases "attempt_try W s t sel v r0 (mark (Attempt idx k) st)")
  have a: "attempts_of idx st1 = attempts_of idx st + 1"
    using attempt_try_counts(1) [OF t] by (simp add: mark_counts)
  have p: "pauses_of st1 = pauses_of st"
    using attempt_try_counts(2) [OF t] by (simp add: mark_counts)
  note step = attempt_loop_Suc [OF t, of n]
  from attempt_try_break_kind [OF Suc.prems(1) t]
  show ?case
  proof
    assume "\<exists>b. x = Inr (Broke b) \<and> raises_of st1 = raises_of (mark (Attempt idx k) st)"
    then obtain b where b: "x = Inr (Broke b)" and r: "raises_of st1 = raises_of st"
      by (auto simp: mark_counts)
    have "st' = st1" using Suc.prems(2) step b by simp
    then show ?thesis by (simp add: a p r)
  next
    assume "\<exists>e. x = Inl e \<and> raises_of st1 = raises_of (mark (Attempt idx k) st) + 1"
    then obtain e where e: "x = Inl e" and r: "raises_of st1 = raises_of st + 1"
      by (auto simp: mark_counts)
    have "attempt_loop W idx s t sel v n (Suc k) (exception_result e) (pause 500 st1)
            = (res, st')"
      using Suc.prems(2) step e by simp
    from Suc.IH [OF Suc.prems(1) this] show ?thesis
      by (auto simp: a p r pause_counts min_def)
  qed
qed

lemma select_times_out_run:
  "execute_ui_plan page_closed (PList [select_step]) 2 (init_state ()) =
     (Inr (PList [PDict [(''step_index'', PInt 0), (''step'', select_step),
                         (''result'', error1 ''exception:Target page, context or browser has been closed'')]]),
      (init_state ())\<lparr>now := 2304,
         log := [Attempt 0 0,
                 Called (SelectOption (PStr ''#country'') (PStr ''FR''))
                   (Raise ''Target page, context or browser has been closed''),
                 Paused 500,
                 Attempt 0 1,
                 Called (SelectOption (PStr ''#country'') (PStr ''FR''))
                   (Raise ''Target page, context or browser has been closed''),
                 Paused 500,
                 Attempt 0 2,
                 Called (SelectOption (PStr ''#country'') (PStr ''FR''))
                   (Raise ''Target page, context or browser has been closed''),
                 Paused 500,
                 Called PageContent (Raise ''Target page, context or browser has been closed''),
                 Called (PlanAction (FeedbackPrompt select_step
                           (error1 ''exception:Target page, context or browser has been closed'')
                           (PStr [])))
                   (Return (PDict [(''verdict'', PStr ''done'')]))]\<rparr>)"
  by code_simp

text \<open>
  C10, as stated, fails: a \<^verbatim>\<open>select\<close> step with a selector and a value whose
  \<^verbatim>\<open>select_option\<close> call raises never reaches the \<^verbatim>\<open>break\<close>; the exception is caught, the
  check fails, the agent pauses and tries again, 3 passes and 3 pauses in all.
\<close>

theorem select_retried_when_driver_raises:
  "attempts_of 0 (snd (execute_ui_plan page_closed (PList [select_step]) 2 (init_state ()))) = 3
   \<and> pauses_of (snd (execute_ui_plan page_closed (PList [select_step]) 2 (init_state ()))) = 3"
  unfolding select_times_out_run
  by (simp add: attempts_of_def pauses_of_def)

text \<open>
  C10, amended. For a step of kind \<^verbatim>\<open>select\<close>, \<^verbatim>\<open>select_option\<close>, \<^verbatim>\<open>hover\<close> or of an
  unrecognised kind, every pass of the retry loop whose driver call raised is followed by
  a pause and, while passes remain, by another pass; the first pass whose driver call
  returns, or that makes none, ends the loop with \<^verbatim>\<open>break\<close>. So the number of passes is the
  number of raised calls plus one, capped by \<^verbatim>\<open>max_retries + 1\<close>, and the number of pauses
  is the number of raised calls. A step of an unrecognised kind, a select without selector
  or \<^verbatim>\<open>value\<close> key and a hover without selector make no driver call: exactly one pass, no
  pause, and an error result.
\<close>

theorem break_kinds_attempts:
  "(\<not> retried_kind t \<and> attempt_loop W idx s t sel v n k r0 st = (res, st') \<longrightarrow>
      raises_of st \<le> raises_of st'
      \<and> attempts_of idx st' = attempts_of idx st + min n (raises_of st' - raises_of st + 1)
      \<and> pauses_of st' + raises_of st = pauses_of st + raises_of st')
   \<and> (\<not> retried_kind t
       \<and> \<not> ((t = PStr ''select'' \<or> t = PStr ''select_option'') \<and> truthy sel \<and> dict_has s ''value'')
       \<and> \<not> (t = PStr ''hover'' \<and> truthy sel) \<longrightarrow>
      (\<exists>b. attempt_loop W idx s t sel v (Suc n) k r0 st = (b, mark (Attempt idx k) st)
            \<and> needs_recovery b))"
proof (intro conjI impI)
  assume a: "\<not> retried_kind t \<and> attempt_loop W idx s t sel v n k r0 st = (res, st')"
  then show "raises_of st \<le> raises_of st'"
    and "attempts_of idx st' = attempts_of idx st + min n (raises_of st' - raises_of st + 1)"
    and "pauses_of st' + raises_of st = pauses_of st + raises_of st'"
    using attempt_loop_break_kind [of t W idx s sel v n k r0 st res st'] by simp_all
next
  assume a: "\<not> retried_kind t
       \<and> \<not> ((t = PStr ''select'' \<or> t = PStr ''select_option'') \<and> truthy sel \<and> dict_has s ''value'')
       \<and> \<not> (t = PStr ''hover'' \<and> truthy sel)"
  then obtain b where
    b: "attempt_try W s t sel v r0 (mark (Attempt idx k) st) = (Inr (Broke b), mark (Attempt idx k) st)"
      "needs_recovery b"
    using attempt_try_no_driver_call [of t sel s W v r0 "mark (Attempt idx k) st"] by blast
  then show "\<exists>b. attempt_loop W idx s t sel v (Suc n) k r0 st = (b, mark (Attempt idx k) st)
            \<and> needs_recovery b"
    by simp
qed

theorem break_kinds_attempts_witness:
  "\<not> retried_kind (PStr ''select'')
   \<and> attempt_loop page_closed 0
        [(''action'', PStr ''select''), (''selector'', PStr ''#country''), (''value'', PStr ''FR'')]
        (PStr ''select'') (PStr ''#country'') (PStr ''FR'') 3 0 PNone (init_state ())
      = (error1 ''exception:Target page, context or browser has been closed'',
         (init_state ())\<lparr>now := 1503,
            log := [Attempt 0 0,
                    Called (SelectOption (PStr ''#country'') (PStr ''FR''))
                      (Raise ''Target page, context or browser has been closed''),
                    Paused 500,
                    Attempt 0 1,
                    Called (SelectOption (PStr ''#country'') (PStr ''FR''))
                      (Raise ''Target page, context or browser has been closed''),
                    Paused 500,
                    Attempt 0 2,
                    Called (SelectOption (PStr ''#country'') (PStr ''FR''))
                      (Raise ''Target page, context or browser has been closed''),
                    Paused 500]\<rparr>)
   \<and> \<not> retried_kind (PStr ''drag'')
   \<and> \<not> ((PStr ''drag'' = PStr ''select'' \<or> PStr ''drag'' = PStr ''select_option'')
          \<and> truthy PNone \<and> dict_has [(''action'', PStr ''drag'')] ''value'')
   \<and> \<not> (PStr ''drag'' = PStr ''hover'' \<and> truthy PNone)
   \<and> attempt_loop page_closed 0 [(''action'', PStr ''drag'')] (PStr ''drag'') PNone PNone 3 0 PNone
        (init_state ())
      = (PDict [(''error'', PStr ''unknown_action''),
                (''provided'', PDict [(''action'', PStr ''drag'')])],
         mark (Attempt 0 0) (init_state ()))"
proof -
  have l: "attempt_loop page_closed 0
        [(''action'', PStr ''select''), (''selector'', PStr ''#country''), (''value'', PStr ''FR'')]
        (PStr ''select'') (PStr ''#country'') (PStr ''FR'') 3 0 PNone (init_state ())
      = (error1 ''exception:Target page, context or browser has been closed'',
         (init_state ())\<lparr>now := 1503,
            log := [Attempt 0 0,
                    Called (SelectOption (PStr ''#country'') (PStr ''FR''))
                      (Raise ''Target page, context or browser has been closed''),
                    Paused 500,
                    Attempt 0 1,
                    Called (SelectOption (PStr ''#country'') (PStr ''FR''))
                      (Raise ''Target page, context or browser has been closed''),
                    Paused 500,
                    Attempt 0 2,
                    Called (SelectOption (PStr ''#country'') (PStr ''FR''))
                      (Raise ''Target page, context or browser has been closed''),
                    Paused 500]\<rparr>)"
    by code_simp
  have d: "attempt_loop page_closed 0 [(''action'', PStr ''drag'')] (PStr ''drag'') PNone PNone 3 0
             PNone (init_state ())
      = (PDict [(''error'', PStr ''unknown_action''),
                (''provided'', PDict [(''action'', PStr ''drag'')])],
         mark (Attempt 0 0) (init_state ()))"
    by code_simp
  have k: "\<not> retried_kind (PStr ''select'')" "\<not> retried_kind (PStr ''drag'')"
    by (simp_all add: retried_kind_def)
  note w1 = break_kinds_attempts [of "PStr ''select''" page_closed 0
      "[(''action'', PStr ''select''), (''selector'', PStr ''#country''), (''value'', PStr ''FR'')]"
      "PStr ''#country''" "PStr ''FR''" 3 0 PNone "init_state ()"]
  from w1 k l d show ?thesis by simp
qed

section \<open>Claims about the State Recorder\<close>

lemma capture_seen:
  "label \<in> captured_names st \<Longrightarrow> capture W label st = ((PStr [], PNone), st)"
  by (simp add: capture_def)

lemma capture_records: "label \<in> captured_names (snd (capture W label st))"
  by (auto simp: capture_def do_call_def split: prod.splits)

lemma capture_mono: "captured_names st \<subseteq> captured_names (snd (capture W l st))"
  by (auto simp: capture_def do_call_def split: prod.splits)

lemma captures_mono: "captured_names st \<subseteq> captured_names (captures W ls st)"
proof (induction ls arbitrary: st)
  case Nil
  then show ?case by simp
next
  case (Cons l ls)
  have "captured_names st \<subseteq> captured_names (snd (capture W l st))"
    by (rule capture_mono)
  also have "\<dots> \<subseteq> captured_names (captures W ls (snd (capture W l st)))"
    by (rule Cons.IH)
  finally show ?case by simp
qed

lemma capture_new_touches_driver:
  "label \<notin> captured_names st \<Longrightarrow>
     \<exists>r1 r2. emitted st (snd (capture W label st)) =
       [Called PageContent r1, Called (Screenshot (path_join (outdir st) (label @ ''.png''))) r2]"
  by (auto simp: capture_def do_call_def emitted_def split: prod.splits)

text \<open>
  C9. A \<^verbatim>\<open>capture(label)\<close> whose label is already in \<^verbatim>\<open>captured_names\<close> returns
  \<^verbatim>\<open>("", None)\<close> and leaves the state as it was: no call to the driver, nothing appended
  to the log. A first \<^verbatim>\<open>capture(label)\<close> records the label, so this holds for a second
  call with the same label, whatever other captures stand between the two. The first
  call itself returns the placeholder in the same way when the label had been seen
  before, and otherwise makes exactly two driver calls, reading the DOM and taking the
  screenshot.
\<close>

theorem capture_idempotent_per_label:
  "(label \<in> captured_names st2 \<longrightarrow> capture W label st2 = ((PStr [], PNone), st2))
   \<and> capture W label (captures W others (snd (capture W label st)))
       = ((PStr [], PNone), captures W others (snd (capture W label st)))
   \<and> emitted (captures W others (snd (capture W label st)))
        (snd (capture W label (captures W others (snd (capture W label st))))) = []
   \<and> label \<in> captured_names (snd (capture W label st))
   \<and> (if label \<in> captured_names st then capture W label st = ((PStr [], PNone), st)
       else \<exists>r1 r2. emitted st (snd (capture W label st)) =
              [Called PageContent r1,
               Called (Screenshot (path_join (outdir st) (label @ ''.png''))) r2])"
proof -
  have m: "label \<in> captured_names (captures W others (snd (capture W label st)))"
    using captures_mono [of "snd (capture W label st)" W others] capture_records [of label W st]
    by blast
  show ?thesis
    using capture_seen [OF m, of W] capture_records [of label W st]
      capture_new_touches_driver [of label st W] capture_seen [of label st W]
      capture_seen [of label st2 W]
    by (simp add: emitted_def)
qed

lemma capture_twice_run:
  "capture nothing_matches ''task_page_loaded'' (init_state ()) =
     ((PNone, PStr ''out/task_page_loaded.png''),
      (init_state ())\<lparr>now := 20,
         log := [Called PageContent (Return PNone),
                 Called (Screenshot ''out/task_page_loaded.png'') (Return PNone)],
         captured_names := {''task_page_loaded''}\<rparr>)"
  by code_simp

theorem capture_idempotent_per_label_witness:
  "''task_page_loaded'' \<in> captured_names
      (snd (capture nothing_matches ''task_page_loaded'' (init_state ())))
   \<and> capture nothing_matches ''task_page_loaded''
        (snd (capture nothing_matches ''task_page_loaded'' (init_state ())))
      = ((PStr [], PNone), snd (capture nothing_matches ''task_page_loaded'' (init_state ())))
   \<and> log (snd (capture nothing_matches ''task_page_loaded'' (init_state ())))
      = [Called PageContent (Return PNone),
         Called (Screenshot ''out/task_page_loaded.png'') (Return PNone)]"
  using capture_idempotent_per_label [of "''task_page_loaded''"
      "snd (capture nothing_matches ''task_page_loaded'' (init_state ()))" nothing_matches "[]"
      "init_state ()"]
  by (simp add: capture_twice_run)

section \<open>Claims about URL cleaning\<close>

text \<open>
  C7. \<^verbatim>\<open>httpbin.org/get\<close> has no scheme at all, and \<^verbatim>\<open>_clean_url\<close>, which is to ensure a
  navigable URL and whose empty result makes the caller fall back to Google, accepts
  it and returns it unchanged: the test is on the four letters \<^verbatim>\<open>http\<close> only, where
  the search for a URL in the planner's reply asks for \<^verbatim>\<open>https?://\<close>.
\<close>

theorem clean_url_accepts_schemeless:
  "\<not> spec_has_http_scheme (strip_where is_quote (py_strip ''httpbin.org/get''))
   \<and> clean_url ''httpbin.org/get'' = ''httpbin.org/get''"
  by code_simp

lemma encode_spaces_no_space: "CHR '' '' \<notin> set (encode_spaces s)"
  by (induction s) (auto simp: encode_spaces_def)

lemma clean_steps_identity:
  "CHR '' '' \<notin> set u \<Longrightarrow> CHR 0x5C \<notin> set u \<Longrightarrow> remove_backslashes (encode_spaces u) = u"
  by (induction u) (auto simp: encode_spaces_def remove_backslashes_def)

lemma lower_char_keeps:
  "lower_char c = CHR ''h'' \<or> lower_char c = CHR ''t'' \<or> lower_char c = CHR ''p''
     \<Longrightarrow> c \<noteq> CHR '' '' \<and> c \<noteq> CHR 0x5C"
  by (auto simp: lower_char_def)

lemma clean_steps_keep_prefix:
  assumes "startswith (py_lower u) ''http''"
  shows "startswith (py_lower (remove_backslashes (encode_spaces u))) ''http''"
proof -
  from assms obtain a b c d rest where u: "u = a # b # c # d # rest"
    by (cases u; cases "tl u"; cases "tl (tl u)"; cases "tl (tl (tl u))")
       (auto simp: startswith_def py_lower_def)
  with assms have l: "lower_char a = CHR ''h''" "lower_char b = CHR ''t''"
      "lower_char c = CHR ''t''" "lower_char d = CHR ''p''"
    by (simp_all add: startswith_def py_lower_def)
  then have "a \<noteq> CHR '' '' \<and> a \<noteq> CHR 0x5C" "b \<noteq> CHR '' '' \<and> b \<noteq> CHR 0x5C"
      "c \<noteq> CHR '' '' \<and> c \<noteq> CHR 0x5C" "d \<noteq> CHR '' '' \<and> d \<noteq> CHR 0x5C"
    using lower_char_keeps by blast+
  then show ?thesis
    using l u by (simp add: startswith_def py_lower_def encode_spaces_def remove_backslashes_def)
qed

text \<open>
  What \<^verbatim>\<open>_clean_url\<close> computes. With \<open>u\<close> the input stripped of surrounding whitespace
  and then of surrounding backticks and quotes: when the lower-cased \<open>u\<close> does not
  begin with the four letters \<^verbatim>\<open>http\<close>, the result is the empty string; when it does,
  the result is \<open>u\<close> with every space replaced by \<^verbatim>\<open>%20\<close> and every backslash removed,
  and nothing else changed: it holds no space and no backslash, still begins with
  \<^verbatim>\<open>http\<close>, and is \<open>u\<close> itself when \<open>u\<close> holds neither.
\<close>

theorem clean_url_http_prefix:
  "(\<not> startswith (py_lower (strip_where is_quote (py_strip url))) ''http''
      \<longrightarrow> clean_url url = [])
   \<and> (startswith (py_lower (strip_where is_quote (py_strip url))) ''http'' \<longrightarrow>
        clean_url url
          = remove_backslashes (encode_spaces (strip_where is_quote (py_strip url)))
        \<and> CHR '' '' \<notin> set (clean_url url) \<and> CHR 0x5C \<notin> set (clean_url url)
        \<and> startswith (py_lower (clean_url url)) ''http''
        \<and> (CHR '' '' \<notin> set (strip_where is_quote (py_strip url))
             \<and> CHR 0x5C \<notin> set (strip_where is_quote (py_strip url))
             \<longrightarrow> clean_url url = strip_where is_quote (py_strip url)))"
proof (intro conjI impI)
  assume "\<not> startswith (py_lower (strip_where is_quote (py_strip url))) ''http''"
  then show "clean_url url = []" by (simp add: clean_url_def)
next
  assume a: "startswith (py_lower (strip_where is_quote (py_strip url))) ''http''"
  have "url \<noteq> []"
  proof
    assume "url = []"
    then have "strip_where is_quote (py_strip url) = []"
      by (simp add: py_strip_def strip_where_def)
    with a show False by (simp add: startswith_def py_lower_def)
  qed
  with a show e: "clean_url url
          = remove_backslashes (encode_spaces (strip_where is_quote (py_strip url)))"
    by (simp add: clean_url_def)
  show "CHR '' '' \<notin> set (clean_url url)"
    using encode_spaces_no_space [of "strip_where is_quote (py_strip url)"]
    by (simp add: e remove_backslashes_def)
  show "CHR 0x5C \<notin> set (clean_url url)"
    by (simp add: e remove_backslashes_def)
  show "startswith (py_lower (clean_url url)) ''http''"
    using clean_steps_keep_prefix [OF a] by (simp add: e)
  assume "CHR '' '' \<notin> set (strip_where is_quote (py_strip url))
             \<and> CHR 0x5C \<notin> set (strip_where is_quote (py_strip url))"
  then show "clean_url url = strip_where is_quote (py_strip url)"
    using clean_steps_identity by (simp add: e)
qed

lemma clean_url_samples:
  "strip_where is_quote (py_strip ''  `https://linear.app/my team`  '') = ''https://linear.app/my team''"
  "clean_url ''  `https://linear.app/my team`  '' = ''https://linear.app/my%20team''"
  "strip_where is_quote (py_strip ''ftp://files.example.org'') = ''ftp://files.example.org''"
  "strip_where is_quote (py_strip ''https://linear.app'') = ''https://linear.app''"
  by code_simp+

theorem clean_url_http_prefix_witness:
  "\<not> startswith (py_lower (strip_where is_quote (py_strip ''ftp://files.example.org''))) ''http''
   \<and> clean_url ''ftp://files.example.org'' = []
   \<and> startswith (py_lower (strip_where is_quote (py_strip ''  `https://linear.app/my team`  ''))) ''http''
   \<and> clean_url ''  `https://linear.app/my team`  '' = ''https://linear.app/my%20team''
   \<and> startswith (py_lower (strip_where is_quote (py_strip ''https://linear.app''))) ''http''
   \<and> CHR '' '' \<notin> set (strip_where is_quote (py_strip ''https://linear.app''))
   \<and> CHR 0x5C \<notin> set (strip_where is_quote (py_strip ''https://linear.app''))
   \<and> clean_url ''https://linear.app'' = ''https://linear.app''"
proof -
  have h: "\<not> startswith (py_lower ''ftp://files.example.org'') ''http''"
    "startswith (py_lower ''https://linear.app/my team'') ''http''"
    "startswith (py_lower ''https://linear.app'') ''http''"
    "CHR '' '' \<notin> set ''https://linear.app''" "CHR 0x5C \<notin> set ''https://linear.app''"
    by code_simp+
  have t1: "clean_url ''ftp://files.example.org'' = []"
    using clean_url_http_prefix [of "''ftp://files.example.org''"] h(1)
    unfolding clean_url_samples by blast
  have t2: "clean_url ''https://linear.app'' = ''https://linear.app''"
    using clean_url_http_prefix [of "''https://linear.app''"] h(3,4,5)
    unfolding clean_url_samples by blast
  show ?thesis
    unfolding clean_url_samples using h t1 t2 by blast
qed

section \<open>Claims about the Planner Gateway\<close>

lemma re_search_json_sample:
  "re_search_json ''Steps [1, 2] then [3].'' = Some ''[1, 2] then [3]''"
  "spec_first_balanced_span ''Steps [1, 2] then [3].'' = Some ''[1, 2]''"
  "re_sub_keys [] (replace_quotes ''[1, 2] then [3]'') = ''[1, 2] then [3]''"
  "py_strip ''Steps [1, 2] then [3].'' = ''Steps [1, 2] then [3].''"
  by code_simp+

text \<open>
  C3. The response \<^verbatim>\<open>Steps [1, 2] then [3].\<close> holds the JSON array \<^verbatim>\<open>[1, 2]\<close>, its
  first balanced span. The greedy pattern matches from the first \<^verbatim>\<open>[\<close> to the last
  \<^verbatim>\<open>]\<close> instead, \<^verbatim>\<open>[1, 2] then [3]\<close>; the repair leaves that text as it is; so whenever
  the decoder rejects that text and the whole response, the call returns the raw text
  wrapped, although the decoder would have decoded \<^verbatim>\<open>[1, 2]\<close>. The extraction never
  raises: its result is always a value.
\<close>

theorem greedy_span_loses_embedded_json:
  "re_search_json ''Steps [1, 2] then [3].'' = Some ''[1, 2] then [3]''
   \<and> spec_first_balanced_span ''Steps [1, 2] then [3].'' = Some ''[1, 2]''
   \<and> (loads ''[1, 2] then [3]'' = JSONDecodeError \<longrightarrow>
        extract_json_from_text loads ''Steps [1, 2] then [3].'' = PNone
        \<and> (loads ''Steps [1, 2] then [3].'' = JSONDecodeError \<longrightarrow>
             plan_action_text loads data ''Steps [1, 2] then [3].''
               = PDict [(''raw_text'', PStr ''Steps [1, 2] then [3].'')]))"
proof (intro conjI impI)
  show "re_search_json ''Steps [1, 2] then [3].'' = Some ''[1, 2] then [3]''"
    by (rule re_search_json_sample)
  show "spec_first_balanced_span ''Steps [1, 2] then [3].'' = Some ''[1, 2]''"
    by (rule re_search_json_sample)
next
  assume a: "loads ''[1, 2] then [3]'' = JSONDecodeError"
  then show e: "extract_json_from_text loads ''Steps [1, 2] then [3].'' = PNone"
    by (simp only: extract_json_from_text_def re_search_json_sample option.case
        loads_result.case)
  assume "loads ''Steps [1, 2] then [3].'' = JSONDecodeError"
  then show "plan_action_text loads data ''Steps [1, 2] then [3].''
               = PDict [(''raw_text'', PStr ''Steps [1, 2] then [3].'')]"
    using e
    by (simp only: plan_action_text_def re_search_json_sample Let_def loads_result.case)
      simp
qed

theorem greedy_span_loses_embedded_json_witness:
  "loads_sample ''[1, 2] then [3]'' = JSONDecodeError
   \<and> loads_sample ''Steps [1, 2] then [3].'' = JSONDecodeError
   \<and> loads_sample ''[1, 2]'' = Decoded (PList [PInt 1, PInt 2])
   \<and> extract_json_from_text loads_sample ''Steps [1, 2] then [3].'' = PNone
   \<and> plan_action_text loads_sample PNone ''Steps [1, 2] then [3].''
       = PDict [(''raw_text'', PStr ''Steps [1, 2] then [3].'')]"
proof -
  have "loads_sample ''[1, 2] then [3]'' = JSONDecodeError"
    "loads_sample ''Steps [1, 2] then [3].'' = JSONDecodeError"
    "loads_sample ''[1, 2]'' = Decoded (PList [PInt 1, PInt 2])"
    by (simp_all add: loads_sample_def)
  then show ?thesis
    using greedy_span_loses_embedded_json [of loads_sample PNone] by blast
qed

text \<open>
  What the extraction does in general: the span it hands to the decoder begins with the
  leftmost bracket that has a closing bracket of its kind somewhere after it and ends
  with the last such closing bracket; a text without such a pair gives \<^verbatim>\<open>None\<close>; and a
  non-empty stripped text that yields nothing and does not decode as a whole comes back
  as \<^verbatim>\<open>{"raw_text": text}\<close>.
\<close>

lemma upto_last_shape:
  "upto_last c s = Some m \<Longrightarrow> m \<noteq> [] \<and> last m = c \<and> (\<exists>t. s = m @ t \<and> c \<notin> set t)"
proof -
  assume a: "upto_last c s = Some m"
  then have cs: "c \<in> set s" and m: "m = rev (dropWhile (\<lambda>x. x \<noteq> c) (rev s))"
    by (auto simp: upto_last_def split: if_splits)
  have d: "dropWhile (\<lambda>x. x \<noteq> c) (rev s) \<noteq> []" using cs by (simp add: dropWhile_eq_Nil_conv)
  then have h: "hd (dropWhile (\<lambda>x. x \<noteq> c) (rev s)) = c"
    using hd_dropWhile [of "\<lambda>x. x \<noteq> c" "rev s"] by simp
  have 1: "m \<noteq> []" using d m by simp
  have 2: "last m = c" using d h m by (simp add: last_rev)
  have "rev (rev s)
          = rev (takeWhile (\<lambda>x. x \<noteq> c) (rev s) @ dropWhile (\<lambda>x. x \<noteq> c) (rev s))"
    by (simp only: takeWhile_dropWhile_id)
  then have "s = m @ rev (takeWhile (\<lambda>x. x \<noteq> c) (rev s))"
    using m by (simp only: rev_rev_ident rev_append)
  moreover have "c \<notin> set (rev (takeWhile (\<lambda>x. x \<noteq> c) (rev s)))"
    using set_takeWhileD [of c "\<lambda>x. x \<noteq> c" "rev s"] by auto
  ultimately show ?thesis using 1 2 by blast
qed

lemma re_search_json_shape:
  "re_search_json resp = Some m \<Longrightarrow>
     \<exists>pre opener body post.
       resp = pre @ m @ post \<and> m = opener # body \<and> body \<noteq> []
       \<and> ((opener = CHR ''{'' \<and> last body = CHR ''}'' \<and> CHR ''}'' \<notin> set post)
          \<or> (opener = CHR ''['' \<and> last body = CHR '']'' \<and> CHR '']'' \<notin> set post))"
proof (induction resp)
  case Nil
  then show ?case by simp
next
  case (Cons x xs)
  consider (brace) b where "x = CHR ''{''" "upto_last (CHR ''}'') xs = Some b" "m = x # b"
    | (bracket) b where "x = CHR ''[''" "upto_last (CHR '']'') xs = Some b" "m = x # b"
    | (skip) "re_search_json xs = Some m"
    using Cons.prems by (auto split: if_splits option.splits)
  then show ?case
  proof cases
    case brace
    from upto_last_shape [OF brace(2)] obtain t where
      "b \<noteq> []" "last b = CHR ''}''" "xs = b @ t" "CHR ''}'' \<notin> set t" by blast
    then show ?thesis using brace(1,3)
      by (intro exI [of _ "[]"] exI [of _ x] exI [of _ b] exI [of _ t]) simp
  next
    case bracket
    from upto_last_shape [OF bracket(2)] obtain t where
      "b \<noteq> []" "last b = CHR '']''" "xs = b @ t" "CHR '']'' \<notin> set t" by blast
    then show ?thesis using bracket(1,3)
      by (intro exI [of _ "[]"] exI [of _ x] exI [of _ b] exI [of _ t]) simp
  next
    case skip
    from Cons.IH [OF skip] obtain pre opener body post where
      p: "xs = pre @ m @ post" "m = opener # body" "body \<noteq> []"
        "(opener = CHR ''{'' \<and> last body = CHR ''}'' \<and> CHR ''}'' \<notin> set post)
          \<or> (opener = CHR ''['' \<and> last body = CHR '']'' \<and> CHR '']'' \<notin> set post)"
      by blast
    show ?thesis
      using p by (intro exI [of _ "x # pre"] exI [of _ opener] exI [of _ body] exI [of _ post]) simp
  qed
qed

lemma plan_action_text_raw:
  assumes "py_strip joined \<noteq> []"
    and "extract_json_from_text loads (py_strip joined) = PNone"
    and "\<And>v. loads (py_strip joined) \<noteq> Decoded v"
  shows "plan_action_text loads data joined = PDict [(''raw_text'', PStr (py_strip joined))]"
  using assms by (cases "loads (py_strip joined)") (auto simp: plan_action_text_def Let_def)

section \<open>The session gate\<close>

lemma log_grows_iff: "log_grows st st' \<longleftrightarrow> (\<exists>es. log st' = log st @ es)"
proof
  assume "log_grows st st'"
  then have "take (length (log st)) (log st') = log st" by (simp add: log_grows_def)
  moreover have "take (length (log st)) (log st') @ drop (length (log st)) (log st') = log st'"
    by (rule append_take_drop_id)
  ultimately have "log st' = log st @ drop (length (log st)) (log st')" by simp
  then show "\<exists>es. log st' = log st @ es" ..
next
  assume "\<exists>es. log st' = log st @ es"
  then show "log_grows st st'" by (auto simp: log_grows_def)
qed

lemma log_grows_emitted: "log_grows st st' \<Longrightarrow> log st' = log st @ emitted st st'"
  by (auto simp: log_grows_iff emitted_def)

lemma log_grows_refl [simp]: "log_grows st st"
  by (simp add: log_grows_def)

lemma log_grows_trans: "log_grows a b \<Longrightarrow> log_grows b c \<Longrightarrow> log_grows a c"
  by (auto simp: log_grows_iff)

lemma emitted_trans:
  "log_grows a b \<Longrightarrow> log_grows b c \<Longrightarrow> emitted a c = emitted a b @ emitted b c"
  by (auto simp: log_grows_iff emitted_def)

lemma emitted_same [simp]: "emitted st st = []"
  by (simp add: emitted_def)

lemma calls_only_grows: "calls_only st st' \<Longrightarrow> log_grows st st'"
  by (simp add: calls_only_def log_grows_def)

lemma quiet_refl [simp]: "quiet st st"
  by (simp add: quiet_def)

lemma quiet_trans: "quiet a b \<Longrightarrow> quiet b c \<Longrightarrow> quiet a c"
  using emitted_trans [of a b c] log_grows_trans [of a b c]
  by (auto simp: quiet_def)

lemma quiet_grows: "quiet st st' \<Longrightarrow> log_grows st st'"
  by (simp add: quiet_def)

lemma quiet_do_call:
  "(\<And>t d. c \<noteq> PlanAction (UiPlanPrompt t d)) \<Longrightarrow> quiet st (snd (do_call W c st))"
proof -
  assume a: "\<And>t d. c \<noteq> PlanAction (UiPlanPrompt t d)"
  have "\<not> is_plan_event (Called c r)" for r
  proof (cases c)
    case (PlanAction p)
    then show ?thesis using a by (cases p) auto
  qed auto
  then show ?thesis
    by (auto simp: quiet_def log_grows_def emitted_def do_call_def split: prod.splits)
qed

lemma quiet_do_call_eq:
  "do_call W c st = (r, st') \<Longrightarrow> (\<And>t d. c \<noteq> PlanAction (UiPlanPrompt t d)) \<Longrightarrow> quiet st st'"
  using quiet_do_call [of c st W] by simp

lemma quiet_pause: "quiet st (pause ms st)"
  by (simp add: quiet_def log_grows_def emitted_def pause_def)

lemma quiet_probed: "quiet st (mark (Probed b) st)"
  by (simp add: quiet_def log_grows_def emitted_def mark_def)

lemma quiet_goto: "quiet st (goto W url st)"
proof (cases "truthy url")
  case False
  then show ?thesis by (simp add: goto_def)
next
  case True
  show ?thesis
  proof (cases url)
    case (PStr s)
    define u where "u = strip_where is_quote (py_strip s)"
    obtain r st1 where c: "do_call W (PageGoto (PStr u) True) st = (r, st1)"
      by (cases "do_call W (PageGoto (PStr u) True) st")
    have q1: "quiet st st1" using quiet_do_call_eq [OF c] by simp
    have q2: "quiet st1 (snd (do_call W (PageGoto (PStr u) False) st1))"
      by (rule quiet_do_call) simp
    show ?thesis
      using True PStr c q1 quiet_trans [OF q1 q2]
      by (cases r) (simp_all add: goto_def u_def Let_def)
  qed (use True in \<open>simp_all add: goto_def quiet_do_call\<close>)
qed

lemma is_logged_in_quiet:
  "quiet st (snd (is_logged_in W st))
   \<and> (fst (is_logged_in W st) \<longrightarrow> Probed True \<in> set (emitted st (snd (is_logged_in W st))))"
proof -
  obtain r st1 where c1: "do_call W ContextCookies st = (r, st1)"
    by (cases "do_call W ContextCookies st")
  obtain r2 st2 where c2: "do_call W PageContent st1 = (r2, st2)"
    by (cases "do_call W PageContent st1")
  have q1: "quiet st st1" using quiet_do_call_eq [OF c1] by simp
  have q2: "quiet st1 st2" using quiet_do_call_eq [OF c2] by simp
  have q12: "quiet st st2" using quiet_trans [OF q1 q2] .
  have m1: "quiet st (mark (Probed b) st1)" for b
    using quiet_trans [OF q1 quiet_probed] .
  have m2: "quiet st (mark (Probed b) st2)" for b
    using quiet_trans [OF q12 quiet_probed] .
  have e: "Probed True \<in> set (emitted st (mark (Probed True) s))" if "quiet st s" for s
  proof -
    from that obtain es where "log s = log st @ es"
      using log_grows_iff quiet_grows by blast
    then show ?thesis by (simp add: emitted_def mark_def)
  qed
  note e1 = e [OF q1] and e2 = e [OF q12]
  have "is_logged_in W st = (True, mark (Probed True) st1)
        \<or> is_logged_in W st = (True, mark (Probed True) st2)
        \<or> is_logged_in W st = (False, mark (Probed False) st2)"
  proof (cases "case r of Return (PList cs) \<Rightarrow> cookies_probe cs = Some True | _ \<Rightarrow> False")
    case True
    then show ?thesis using c1 by (simp add: is_logged_in_def)
  next
    case False
    then have "is_logged_in W st =
        (case r2 of
           Return (PStr html) \<Rightarrow>
             (if \<not> list_ex (contains (py_lower html))
                       [''sign in'', ''login'', ''password'', ''create account'']
              then (True, mark (Probed True) st2)
              else (False, mark (Probed False) st2))
         | _ \<Rightarrow> (False, mark (Probed False) st2))"
      using c1 c2 by (simp add: is_logged_in_def)
    then show ?thesis by (auto split: resp.splits pyval.splits if_splits)
  qed
  then consider (cookie) "is_logged_in W st = (True, mark (Probed True) st1)"
    | (page) "is_logged_in W st = (True, mark (Probed True) st2)"
    | (no) "is_logged_in W st = (False, mark (Probed False) st2)"
    by blast
  then show ?thesis
  proof cases
    case cookie
    then show ?thesis using m1 e1 by simp
  next
    case page
    then show ?thesis using m2 e2 by simp
  next
    case no
    then show ?thesis using m2 by simp
  qed
qed

lemma emitted_later:
  "log_grows a b \<Longrightarrow> log_grows b c \<Longrightarrow> x \<in> set (emitted b c) \<Longrightarrow> x \<in> set (emitted a c)"
  using emitted_trans [of a b c] by simp

lemma emitted_earlier:
  "log_grows a b \<Longrightarrow> log_grows b c \<Longrightarrow> x \<in> set (emitted a b) \<Longrightarrow> x \<in> set (emitted a c)"
  using emitted_trans [of a b c] by simp

lemma manual_login_loop_quiet:
  "quiet st (snd (manual_login_loop W start st))
   \<and> (fst (manual_login_loop W start st)
        \<longrightarrow> Probed True \<in> set (emitted st (snd (manual_login_loop W start st))))"
proof (induction W start st rule: manual_login_loop.induct)
  case (1 W start st)
  show ?case
  proof (cases "now st - start < 120000")
    case False
    then show ?thesis by (simp add: manual_login_loop.simps [of W start st])
  next
    case True
    obtain b st1 where p: "is_logged_in W st = (b, st1)"
      by (cases "is_logged_in W st")
    have q1: "quiet st st1" and e1: "b \<longrightarrow> Probed True \<in> set (emitted st st1)"
      using is_logged_in_quiet [of st W] p by simp_all
    show ?thesis
    proof (cases b)
      case True
      define st2 where "st2 = snd (do_call W RemoveLoginBanner st1)"
      define st3 where "st3 = snd (do_call W SaveStorageState st2)"
      have q2: "quiet st1 st2" unfolding st2_def by (rule quiet_do_call) simp
      have q3: "quiet st2 st3" unfolding st3_def by (rule quiet_do_call) simp
      have q13: "quiet st1 st3" using quiet_trans [OF q2 q3] .
      have r: "manual_login_loop W start st = (True, st3)"
        using \<open>now st - start < 120000\<close> p True
        by (simp add: manual_login_loop.simps [of W start st] st2_def st3_def)
      have "Probed True \<in> set (emitted st st3)"
        using emitted_earlier [OF quiet_grows [OF q1] quiet_grows [OF q13]] e1 True by simp
      then show ?thesis using r quiet_trans [OF q1 q13] by simp
    next
      case False
      have r: "manual_login_loop W start st = manual_login_loop W start (pause 3000 st1)"
        using \<open>now st - start < 120000\<close> p False
        by (simp add: manual_login_loop.simps [of W start st])
      note ih = "1.IH" [OF \<open>now st - start < 120000\<close> p [symmetric], simplified, OF False]
      define st' where "st' = snd (manual_login_loop W start (pause 3000 st1))"
      have qp: "quiet st (pause 3000 st1)" using quiet_trans [OF q1 quiet_pause] .
      have q': "quiet (pause 3000 st1) st'" using ih by (simp add: st'_def)
      have "fst (manual_login_loop W start (pause 3000 st1))
              \<longrightarrow> Probed True \<in> set (emitted st st')"
        using ih emitted_later [OF quiet_grows [OF qp] quiet_grows [OF q']]
        by (simp add: st'_def)
      then show ?thesis using r quiet_trans [OF qp q'] by (simp add: st'_def)
    qed
  qed
qed

lemma cookie_login_quiet:
  "quiet st (snd (cookie_login W start_url st))
   \<and> (fst (cookie_login W start_url st) = Inr True
        \<longrightarrow> Probed True \<in> set (emitted st (snd (cookie_login W start_url st))))"
proof -
  define st0 where "st0 = pause 2000 (goto W start_url st)"
  obtain r st1 where c1: "do_call W CookiesFileExists st0 = (r, st1)"
    by (cases "do_call W CookiesFileExists st0")
  have q0: "quiet st st0" unfolding st0_def using quiet_trans [OF quiet_goto quiet_pause] .
  have q1: "quiet st st1" using quiet_trans [OF q0 quiet_do_call_eq [OF c1]] by simp
  show ?thesis
  proof (cases "case r of Return v \<Rightarrow> truthy v | Raise m \<Rightarrow> False")
    case False
    then have "cookie_login W start_url st = (Inr False, st1)"
      using c1 by (simp add: cookie_login_def st0_def)
    then show ?thesis using q1 by simp
  next
    case True
    define sa where "sa = snd (do_call W PreloadCookies st1)"
    define sb where "sb = pause 3000 (goto W (py_or start_url (PStr ''https://www.google.com'')) sa)"
    obtain b st2 where p: "is_logged_in W sb = (b, st2)" by (cases "is_logged_in W sb")
    have qa: "quiet st1 sa" unfolding sa_def by (rule quiet_do_call) simp
    have qb: "quiet sa sb" unfolding sb_def using quiet_trans [OF quiet_goto quiet_pause] .
    have qsb: "quiet st sb" using quiet_trans [OF q1 quiet_trans [OF qa qb]] .
    have q2: "quiet sb st2" and e2: "b \<longrightarrow> Probed True \<in> set (emitted sb st2)"
      using is_logged_in_quiet [of sb W] p by simp_all
    have qs2: "quiet st st2" using quiet_trans [OF qsb q2] .
    show ?thesis
    proof (cases b)
      case True
      then have "cookie_login W start_url st = (Inr True, st2)"
        using c1 \<open>case r of Return v \<Rightarrow> truthy v | Raise m \<Rightarrow> False\<close> p
        by (simp add: cookie_login_def st0_def sa_def sb_def)
      moreover have "Probed True \<in> set (emitted st st2)"
        using emitted_later [OF quiet_grows [OF qsb] quiet_grows [OF q2]] e2 True by simp
      ultimately show ?thesis using qs2 by simp
    next
      case False
      obtain r3 st3 where c3: "do_call W RemoveCookiesFile st2 = (r3, st3)"
        by (cases "do_call W RemoveCookiesFile st2")
      have q3: "quiet st st3" using quiet_trans [OF qs2 quiet_do_call_eq [OF c3]] by simp
      have "cookie_login W start_url st
              = (case r3 of Raise m \<Rightarrow> (Inl (ExternalError m), st3) | Return v \<Rightarrow> (Inr False, st3))"
        using c1 \<open>case r of Return v \<Rightarrow> truthy v | Raise m \<Rightarrow> False\<close> p False c3
        by (simp add: cookie_login_def st0_def sa_def sb_def split: resp.splits)
      then show ?thesis using q3 by (cases r3) simp_all
    qed
  qed
qed

lemma manual_login_quiet:
  "quiet st (snd (manual_login L W task st))
   \<and> (fst (manual_login L W task st) = Inr True
        \<longrightarrow> Probed True \<in> set (emitted st (snd (manual_login L W task st))))"
proof -
  obtain r st1 where c1: "do_call W (PlanAction (BaseUrlPrompt task)) st = (r, st1)"
    by (cases "do_call W (PlanAction (BaseUrlPrompt task)) st")
  have q1: "quiet st st1" using quiet_do_call_eq [OF c1] by simp
  show ?thesis
  proof (cases r)
    case (Raise m)
    then show ?thesis using c1 q1 by (simp add: manual_login_def)
  next
    case (Return base_resp)
    show ?thesis
    proof (cases "base_url_of L base_resp")
      case (Inl e)
      then show ?thesis using c1 q1 Return by (simp add: manual_login_def)
    next
      case (Inr base_url)
      define sa where
        "sa = snd (do_call W ShowLoginBanner
                     (goto W (PStr (rstrip_slash base_url @ ''/login'')) st1))"
      have qa: "quiet st1 sa"
        unfolding sa_def using quiet_trans [OF quiet_goto quiet_do_call] by blast
      have qsa: "quiet st sa" using quiet_trans [OF q1 qa] .
      define b where "b = fst (manual_login_loop W (now sa) sa)"
      define st2 where "st2 = snd (manual_login_loop W (now sa) sa)"
      have q2: "quiet sa st2" and e2: "b \<longrightarrow> Probed True \<in> set (emitted sa st2)"
        using manual_login_loop_quiet [of sa W "now sa"] by (simp_all add: b_def st2_def)
      have r: "manual_login L W task st = (Inr b, st2)"
        using c1 Return Inr by (simp add: manual_login_def sa_def b_def st2_def split: prod.splits)
      have "b \<longrightarrow> Probed True \<in> set (emitted st st2)"
        using emitted_later [OF quiet_grows [OF qsa] quiet_grows [OF q2]] e2 by simp
      then show ?thesis using r quiet_trans [OF qsa q2] by simp
    qed
  qed
qed

text \<open>Everything after the login only appends to the log.\<close>

lemma log_grows_do_call: "log_grows st (snd (do_call W c st))"
  by (auto simp: log_grows_def do_call_def split: prod.splits)

lemma log_grows_do_call_eq: "do_call W c st = (r, st') \<Longrightarrow> log_grows st st'"
  using log_grows_do_call [of st W c] by simp

lemma log_grows_pause: "log_grows st (pause ms st)"
  by (simp add: log_grows_def pause_def)

lemma log_grows_mark: "log_grows st (mark e st)"
  by (simp add: log_grows_def mark_def)

lemma log_grows_attempt_loop:
  "log_grows st (snd (attempt_loop W idx s t sel v n k r0 st))"
proof (induction n arbitrary: k r0 st)
  case 0
  then show ?case by simp
next
  case (Suc n)
  obtain x st1 where t: "attempt_try W s t sel v r0 (mark (Attempt idx k) st) = (x, st1)"
    by (cases "attempt_try W s t sel v r0 (mark (Attempt idx k) st)")
  have g1: "log_grows st st1"
    using log_grows_trans [OF log_grows_mark
        calls_only_grows [OF calls_only_attempt_try [of "mark (Attempt idx k) st" W s t sel v r0]]]
      t by simp
  have g2: "log_grows st (snd (attempt_loop W idx s t sel v n k' r' (pause 500 st1)))" for k' r'
    using log_grows_trans [OF g1 log_grows_trans [OF log_grows_pause Suc.IH]] .
  show ?case
    unfolding attempt_loop_Suc [OF t]
    using g1 g2 by (auto split: sum.splits flow.splits)
qed

lemma log_grows_plan_loop: "log_grows st (snd (plan_loop W n idx steps results st))"
proof (induction steps arbitrary: idx results st)
  case Nil
  then show ?case by simp
next
  case (Cons step rest)
  show ?case
  proof (cases step)
    case (PDict s)
    define t where "t = py_or (dict_get s ''action'') (dict_get s ''type'')"
    define sel where
      "sel = py_or (py_or (dict_get s ''selector'') (dict_get s ''sel'')) (dict_get s ''query'')"
    define v where
      "v = py_or (py_or (dict_get s ''value'') (dict_get s ''text'')) (dict_get s ''fill'')"
    obtain result st1 where al: "attempt_loop W idx s t sel v n 0 PNone st = (result, st1)"
      by (cases "attempt_loop W idx s t sel v n 0 PNone st")
    have g1: "log_grows st st1"
      using log_grows_attempt_loop [of st W idx s t sel v n 0 PNone] al by simp
    obtain y st2 where rc: "recover W step result st1 = (y, st2)"
      by (cases "recover W step result st1")
    have g2: "log_grows st st2"
      using log_grows_trans [OF g1 calls_only_grows [OF calls_only_recover [of st1 W step result]]]
        rc by simp
    have g3: "log_grows st (snd (plan_loop W n (Suc idx) rest rs st1))" for rs
      using log_grows_trans [OF g1 Cons.IH] .
    have g4: "log_grows st (snd (plan_loop W n (Suc idx) rest rs st2))" for rs
      using log_grows_trans [OF g2 Cons.IH] .
    show ?thesis
      using PDict al rc g2 g3 g4
      by (cases y) (simp_all add: t_def sel_def v_def)
  qed simp_all
qed

lemma log_grows_execute_ui_plan:
  "log_grows st (snd (execute_ui_plan W ui_plan max_retries st))"
proof (cases ui_plan)
  case (PList steps)
  then show ?thesis
    using log_grows_plan_loop [of st W "nat (max_retries + 1)" 0 steps "[]"]
    by (auto simp: execute_ui_plan_def split: prod.splits sum.splits)
qed (simp_all add: execute_ui_plan_def)

lemma log_grows_capture: "log_grows st (snd (capture W label st))"
  by (auto simp: capture_def log_grows_def do_call_def split: prod.splits)

lemma log_grows_capture_unique_state: "log_grows st (snd (capture_unique_state W label st))"
proof -
  obtain r st1 where c: "do_call W PageContent st = (r, st1)"
    by (cases "do_call W PageContent st")
  have g1: "log_grows st st1" using log_grows_do_call_eq [OF c] .
  have g2: "log_grows st (snd (capture W label (st1\<lparr>last_dom_snapshot := d\<rparr>)))" for d
  proof -
    have "log_grows st (st1\<lparr>last_dom_snapshot := d\<rparr>)"
      using g1 by (simp add: log_grows_def)
    then show ?thesis using log_grows_trans log_grows_capture by blast
  qed
  show ?thesis
    using c g1 g2 by (cases r) (simp_all add: capture_unique_state_def)
qed

lemma log_grows_task_url: "log_grows st (snd (task_url L W task st))"
proof -
  obtain r st1 where c: "do_call W (PlanAction (TaskUrlPrompt task)) st = (r, st1)"
    by (cases "do_call W (PlanAction (TaskUrlPrompt task)) st")
  have g1: "log_grows st st1" using log_grows_do_call_eq [OF c] .
  have g2: "log_grows st (snd (do_call W PageUrl st1))"
    using log_grows_trans [OF g1 log_grows_do_call] .
  show ?thesis
    using c g1 g2
    by (auto simp: task_url_def split: resp.splits sum.splits prod.splits)
qed

lemma log_grows_plan_phase: "log_grows st (snd (plan_phase L W start_url task meta st))"
proof -
  obtain r1 st1 where c1: "do_call W PageContent st = (r1, st1)"
    by (cases "do_call W PageContent st")
  have g1: "log_grows st st1" using log_grows_do_call_eq [OF c1] .
  show ?thesis
  proof (cases r1)
    case (Raise m)
    then show ?thesis using c1 g1 by (simp add: plan_phase_def)
  next
    case (Return d)
    obtain r2 st2 where c2: "do_call W (PlanAction (UiPlanPrompt task d)) st1 = (r2, st2)"
      by (cases "do_call W (PlanAction (UiPlanPrompt task d)) st1")
    have g2: "log_grows st st2" using log_grows_trans [OF g1 log_grows_do_call_eq [OF c2]] .
    show ?thesis
    proof (cases r2)
      case (Raise m)
      then show ?thesis using c1 Return c2 g2 by (simp add: plan_phase_def)
    next
      case r2: (Return ui_plan_resp)
      show ?thesis
      proof (cases "normalize_plan L ui_plan_resp")
        case (Inl err)
        then show ?thesis using c1 Return c2 r2 g2 by (simp add: plan_phase_def)
      next
        case (Inr ui_plan)
        obtain y st3 where e: "execute_ui_plan W ui_plan 2 st2 = (y, st3)"
          by (cases "execute_ui_plan W ui_plan 2 st2")
        have g3: "log_grows st st3"
          using log_grows_trans [OF g2 log_grows_execute_ui_plan [of st2 W ui_plan 2]] e by simp
        obtain r4 st4 where c4: "do_call W BrowserClose st3 = (r4, st4)"
          by (cases "do_call W BrowserClose st3")
        have g4: "log_grows st st4" using log_grows_trans [OF g3 log_grows_do_call_eq [OF c4]] .
        show ?thesis
          using c1 Return c2 r2 Inr e c4 g3 g4
          by (cases y; cases r4) (simp_all add: plan_phase_def)
      qed
    qed
  qed
qed

lemma log_grows_task_phase: "log_grows st (snd (task_phase L W start_url task st))"
proof -
  obtain y st1 where c1: "task_url L W task st = (y, st1)"
    by (cases "task_url L W task st")
  have g1: "log_grows st st1" using log_grows_task_url [of st L W task] c1 by simp
  show ?thesis
  proof (cases y)
    case (Inl e)
    then show ?thesis using c1 g1 by (simp add: task_phase_def)
  next
    case (Inr u)
    define sa where "sa = snd (capture W ''aligned_authenticated_page''
                          (snd (capture_unique_state W ''task_page_loaded'' (goto W u st1))))"
    have ga: "log_grows st sa"
      unfolding sa_def
      using log_grows_trans [OF g1
          log_grows_trans [OF quiet_grows [OF quiet_goto]
            log_grows_trans [OF log_grows_capture_unique_state log_grows_capture]]] .
    define meta where "meta = PDict [(''step'', PInt 0), (''action'', PStr ''task_page_ready''),
                             (''url'', u)]"
    obtain r2 st2 where c2: "do_call W (SaveStepMetadata meta) sa = (r2, st2)"
      by (cases "do_call W (SaveStepMetadata meta) sa")
    have g2: "log_grows st st2" using log_grows_trans [OF ga log_grows_do_call_eq [OF c2]] .
    have g3: "log_grows st (snd (plan_phase L W start_url task meta st2))"
      using log_grows_trans [OF g2 log_grows_plan_phase] .
    show ?thesis
      using c1 Inr c2 g2 g3
      by (cases r2) (simp_all add: task_phase_def sa_def meta_def)
  qed
qed

text \<open>Where a run that never got past the login can raise.\<close>

lemma do_call_emitted:
  assumes "log_grows st s" and "do_call W c s = (r, s')"
  shows "Called c r \<in> set (emitted st s')"
proof -
  from assms(1) obtain es where "log s = log st @ es" using log_grows_iff by blast
  moreover have "log s' = log s @ [Called c r]"
    using assms(2) by (auto simp: do_call_def split: prod.splits)
  ultimately show ?thesis by (simp add: emitted_def)
qed

lemma cookie_login_escape:
  assumes "cookie_login W start_url st = (Inl e, st')"
  shows "\<exists>m. Called RemoveCookiesFile (Raise m) \<in> set (emitted st st')"
proof -
  define st0 where "st0 = pause 2000 (goto W start_url st)"
  obtain r st1 where c1: "do_call W CookiesFileExists st0 = (r, st1)"
    by (cases "do_call W CookiesFileExists st0")
  have q0: "quiet st st0" unfolding st0_def using quiet_trans [OF quiet_goto quiet_pause] .
  have q1: "quiet st st1" using quiet_trans [OF q0 quiet_do_call_eq [OF c1]] by simp
  show ?thesis
  proof (cases "case r of Return v \<Rightarrow> truthy v | Raise m \<Rightarrow> False")
    case False
    then have "cookie_login W start_url st = (Inr False, st1)"
      using c1 by (simp add: cookie_login_def st0_def)
    then show ?thesis using assms by simp
  next
    case True
    define sa where "sa = snd (do_call W PreloadCookies st1)"
    define sb where "sb = pause 3000 (goto W (py_or start_url (PStr ''https://www.google.com'')) sa)"
    obtain b st2 where p: "is_logged_in W sb = (b, st2)" by (cases "is_logged_in W sb")
    have qa: "quiet st1 sa" unfolding sa_def by (rule quiet_do_call) simp
    have qb: "quiet sa sb" unfolding sb_def using quiet_trans [OF quiet_goto quiet_pause] .
    have qsb: "quiet st sb" using quiet_trans [OF q1 quiet_trans [OF qa qb]] .
    have q2: "quiet sb st2" using is_logged_in_quiet [of sb W] p by simp
    have qs2: "quiet st st2" using quiet_trans [OF qsb q2] .
    show ?thesis
    proof (cases b)
      case b: True
      then have "cookie_login W start_url st = (Inr True, st2)"
        using c1 True p by (simp add: cookie_login_def st0_def sa_def sb_def)
      then show ?thesis using assms by simp
    next
      case b: False
      obtain r3 st3 where c3: "do_call W RemoveCookiesFile st2 = (r3, st3)"
        by (cases "do_call W RemoveCookiesFile st2")
      have eq: "cookie_login W start_url st
              = (case r3 of Raise m \<Rightarrow> (Inl (ExternalError m), st3) | Return v \<Rightarrow> (Inr False, st3))"
        using c1 True p b c3
        by (simp add: cookie_login_def st0_def sa_def sb_def split: resp.splits)
      show ?thesis
      proof (cases r3)
        case (Raise m)
        then have "st' = st3" using eq assms by simp
        then show ?thesis
          using do_call_emitted [OF quiet_grows [OF qs2] c3] Raise by blast
      next
        case (Return v)
        then show ?thesis using eq assms by simp
      qed
    qed
  qed
qed

lemma manual_login_escape:
  assumes "manual_login L W task st = (Inl e, st')"
  shows "(\<exists>m. Called (PlanAction (BaseUrlPrompt task)) (Raise m) \<in> set (emitted st st'))
         \<or> (\<exists>v x. Called (PlanAction (BaseUrlPrompt task)) (Return v) \<in> set (emitted st st')
                  \<and> base_url_of L v = Inl x)"
proof -
  obtain r st1 where c1: "do_call W (PlanAction (BaseUrlPrompt task)) st = (r, st1)"
    by (cases "do_call W (PlanAction (BaseUrlPrompt task)) st")
  note em = do_call_emitted [OF log_grows_refl c1]
  show ?thesis
  proof (cases r)
    case (Raise m)
    then have "st' = st1" using assms c1 by (simp add: manual_login_def)
    then show ?thesis using em Raise by blast
  next
    case (Return base_resp)
    show ?thesis
    proof (cases "base_url_of L base_resp")
      case (Inl x)
      then have "st' = st1" using assms c1 Return by (simp add: manual_login_def)
      then show ?thesis using em Return Inl by blast
    next
      case (Inr base_url)
      then show ?thesis
        using assms c1 Return by (simp add: manual_login_def split: prod.splits)
    qed
  qed
qed

lemma run_cases:
  assumes "run L W start_url task st = (out, st')"
  shows "(quiet st st' \<and> out = Inr (PDict [(''error'', PStr ''login_timeout'')]))
         \<or> (quiet st st' \<and> (\<exists>e. out = Inl e)
             \<and> ((\<exists>m. Called RemoveCookiesFile (Raise m) \<in> set (emitted st st'))
                \<or> (\<exists>m. Called (PlanAction (BaseUrlPrompt task)) (Raise m) \<in> set (emitted st st'))
                \<or> (\<exists>v x. Called (PlanAction (BaseUrlPrompt task)) (Return v)
                            \<in> set (emitted st st')
                          \<and> base_url_of L v = Inl x)))
         \<or> (\<exists>st1. quiet st st1 \<and> Probed True \<in> set (emitted st st1) \<and> log_grows st1 st')"
proof -
  obtain x st1 where c: "cookie_login W start_url st = (x, st1)"
    by (cases "cookie_login W start_url st")
  have q1: "quiet st st1" and e1: "x = Inr True \<longrightarrow> Probed True \<in> set (emitted st st1)"
    using cookie_login_quiet [of st W start_url] c by simp_all
  show ?thesis
  proof (cases x)
    case (Inl e)
    then have "out = Inl e" "st' = st1" using assms c by (auto simp: run_def)
    then show ?thesis using cookie_login_escape [of W start_url st e st1] c Inl q1 by blast
  next
    case (Inr b)
    show ?thesis
    proof (cases b)
      case True
      then have "st' = snd (task_phase L W start_url task st1)"
        using assms c Inr by (simp add: run_def)
      then have "log_grows st1 st'" using log_grows_task_phase by blast
      then show ?thesis using q1 e1 Inr True by blast
    next
      case False
      obtain y st2 where m: "manual_login L W task st1 = (y, st2)"
        by (cases "manual_login L W task st1")
      have q2: "quiet st1 st2" and e2: "y = Inr True \<longrightarrow> Probed True \<in> set (emitted st1 st2)"
        using manual_login_quiet [of st1 L W task] m by simp_all
      have q12: "quiet st st2" using quiet_trans [OF q1 q2] .
      note later = emitted_later [OF quiet_grows [OF q1] quiet_grows [OF q2]]
      show ?thesis
      proof (cases y)
        case (Inl e)
        then have o: "out = Inl e" "st' = st2" using assms c Inr False m by (auto simp: run_def)
        from manual_login_escape [of L W task st1 e st2] m Inl
        have "(\<exists>m. Called (PlanAction (BaseUrlPrompt task)) (Raise m) \<in> set (emitted st st2))
              \<or> (\<exists>v x. Called (PlanAction (BaseUrlPrompt task)) (Return v) \<in> set (emitted st st2)
                       \<and> base_url_of L v = Inl x)"
          using later by blast
        then show ?thesis using o q12 by blast
      next
        case y: (Inr b2)
        show ?thesis
        proof (cases b2)
          case True
          then have "st' = snd (task_phase L W start_url task st2)"
            using assms c Inr False m y by (simp add: run_def)
          then have "log_grows st2 st'" using log_grows_task_phase by blast
          moreover have "Probed True \<in> set (emitted st st2)"
            using later e2 y True by simp
          ultimately show ?thesis using q12 by blast
        next
          case b2: False
          have "quiet st2 (snd (do_call W RemoveLoginBanner st2))"
            by (rule quiet_do_call) simp
          then have "quiet st (snd (do_call W RemoveLoginBanner st2))"
            using quiet_trans [OF q12] by blast
          then show ?thesis using assms c Inr False m y b2 by (auto simp: run_def)
        qed
      qed
    qed
  qed
qed

lemma plan_after_login_True: "plan_after_login True es"
  by (induction es) auto

lemma plan_after_login_quiet:
  "\<not> list_ex is_plan_event es \<Longrightarrow>
     plan_after_login a (es @ fs) = plan_after_login (a \<or> Probed True \<in> set es) fs"
proof (induction es arbitrary: a)
  case Nil
  then show ?case by simp
next
  case (Cons e es)
  have "plan_after_login a ((e # es) @ fs) = plan_after_login (a \<or> e = Probed True) (es @ fs)"
    using Cons.prems by simp
  also have "\<dots> = plan_after_login ((a \<or> e = Probed True) \<or> Probed True \<in> set es) fs"
    using Cons.IH [of "a \<or> e = Probed True"] Cons.prems by simp
  also have "((a \<or> e = Probed True) \<or> Probed True \<in> set es)
               = (a \<or> Probed True \<in> set (e # es))"
    by auto
  finally show ?case .
qed

lemma lower_sample: "py_lower ''<h1>Login</h1>'' = ''<h1>login</h1>''"
  by code_simp

text \<open>
  What the gate gives in every run. Read from the left, the log shows no event of the
  Plan Executor (the request for the plan, a pass of a step through the retry loop)
  before a successful answer of the authentication probe. A run in which the probe
  never answered yes requests and executes no plan, and a value it returns is
  \<^verbatim>\<open>{"error": "login_timeout"}\<close>; it does return that value when deleting the stale
  cookie file did not raise, the base-URL request did not raise, and every reply to it
  gave a string to search.
\<close>

theorem no_plan_step_before_login:
  "(run L W start_url task st = (out, st') \<longrightarrow> plan_after_login False (emitted st st'))
   \<and> (run L W start_url task st = (out, st') \<and> Probed True \<notin> set (emitted st st') \<longrightarrow>
        (out = Inr (PDict [(''error'', PStr ''login_timeout'')]) \<or> (\<exists>e. out = Inl e))
        \<and> \<not> list_ex is_plan_event (emitted st st'))
   \<and> (run L W start_url task st = (out, st') \<and> Probed True \<notin> set (emitted st st')
        \<and> (\<forall>m. Called RemoveCookiesFile (Raise m) \<notin> set (emitted st st'))
        \<and> (\<forall>m. Called (PlanAction (BaseUrlPrompt task)) (Raise m) \<notin> set (emitted st st'))
        \<and> (\<forall>v. Called (PlanAction (BaseUrlPrompt task)) (Return v) \<in> set (emitted st st')
                \<longrightarrow> (\<exists>u. base_url_of L v = Inr u))
        \<longrightarrow> out = Inr (PDict [(''error'', PStr ''login_timeout'')]))"
proof (intro conjI impI)
  assume r: "run L W start_url task st = (out, st')"
  have a: "plan_after_login False (emitted st st')" if "quiet st st'"
  proof -
    from that have "\<not> list_ex is_plan_event (emitted st st')" by (simp add: quiet_def)
    from plan_after_login_quiet [OF this, of False "[]"] show ?thesis by simp
  qed
  have b: "plan_after_login False (emitted st st')"
    if "\<exists>st1. quiet st st1 \<and> Probed True \<in> set (emitted st st1) \<and> log_grows st1 st'"
  proof -
    from that obtain st1 where q: "quiet st st1" and p: "Probed True \<in> set (emitted st st1)"
      and g: "log_grows st1 st'" by blast
    have "emitted st st' = emitted st st1 @ emitted st1 st'"
      using emitted_trans [OF quiet_grows [OF q] g] .
    moreover have "\<not> list_ex is_plan_event (emitted st st1)" using q by (simp add: quiet_def)
    ultimately show ?thesis
      using plan_after_login_quiet [of "emitted st st1" False "emitted st1 st'"] p
      by (simp add: plan_after_login_True)
  qed
  from run_cases [OF r] a b show "plan_after_login False (emitted st st')" by blast
next
  assume a: "run L W start_url task st = (out, st') \<and> Probed True \<notin> set (emitted st st')"
  then have r: "run L W start_url task st = (out, st')"
    and n: "Probed True \<notin> set (emitted st st')" by simp_all
  have no: "\<not> (\<exists>st1. quiet st st1 \<and> Probed True \<in> set (emitted st st1) \<and> log_grows st1 st')"
    using emitted_earlier [OF quiet_grows] n by blast
  have c: "quiet st st'
            \<and> (out = Inr (PDict [(''error'', PStr ''login_timeout'')]) \<or> (\<exists>e. out = Inl e))"
    using run_cases [OF r] no by blast
  from c show "out = Inr (PDict [(''error'', PStr ''login_timeout'')]) \<or> (\<exists>e. out = Inl e)"
    by simp
  from c show "\<not> list_ex is_plan_event (emitted st st')" by (simp add: quiet_def)
next
  assume a: "run L W start_url task st = (out, st') \<and> Probed True \<notin> set (emitted st st')
        \<and> (\<forall>m. Called RemoveCookiesFile (Raise m) \<notin> set (emitted st st'))
        \<and> (\<forall>m. Called (PlanAction (BaseUrlPrompt task)) (Raise m) \<notin> set (emitted st st'))
        \<and> (\<forall>v. Called (PlanAction (BaseUrlPrompt task)) (Return v) \<in> set (emitted st st')
                \<longrightarrow> (\<exists>u. base_url_of L v = Inr u))"
  then have r: "run L W start_url task st = (out, st')"
    and n: "Probed True \<notin> set (emitted st st')" by simp_all
  have no: "\<not> (\<exists>st1. quiet st st1 \<and> Probed True \<in> set (emitted st st1) \<and> log_grows st1 st')"
    using emitted_earlier [OF quiet_grows] n by blast
  have ne: "\<not> ((\<exists>m. Called RemoveCookiesFile (Raise m) \<in> set (emitted st st'))
                \<or> (\<exists>m. Called (PlanAction (BaseUrlPrompt task)) (Raise m) \<in> set (emitted st st'))
                \<or> (\<exists>v x. Called (PlanAction (BaseUrlPrompt task)) (Return v)
                            \<in> set (emitted st st')
                          \<and> base_url_of L v = Inl x))"
    using a by auto
  from run_cases [OF r] no ne
  show "out = Inr (PDict [(''error'', PStr ''login_timeout'')])" by blast
qed

lemma probe_slow: "is_logged_in slow_login_wall st =
   (False, st\<lparr>now := now st + 35100,
              log := log st @ [Called ContextCookies (Return (PList [])),
                               Called PageContent (Return (PStr ''<h1>Login</h1>'')),
                               Probed False]\<rparr>)"
  by (simp add: is_logged_in_def slow_login_wall_def do_call_def mark_def lower_sample
      startswith_def)

lemma base_sample:
  "base_url_of plain_lib (PDict [(''raw_text'', PStr ''https://linear.app'')])
     = Inr ''https://linear.app''"
  "rstrip_slash ''https://linear.app'' @ ''/login'' = ''https://linear.app/login''"
  "strip_where is_quote (py_strip ''https://linear.app/login'') = ''https://linear.app/login''"
  "strip_where is_quote (py_strip ''https://www.google.com'') = ''https://www.google.com''"
  by code_simp+

lemma scenario_B_run:
  "run plain_lib slow_login_wall (PStr ''https://www.google.com'') (PStr ''Create a project'')
     (init_state ()) =
   (Inr (PDict [(''error'', PStr ''login_timeout'')]),
    (init_state ())\<lparr>now := 155000,
       log :=
         [Called (PageGoto (PStr ''https://www.google.com'') True) (Return PNone),
          Paused 2000,
          Called CookiesFileExists (Return (PBool False)),
          Called (PlanAction (BaseUrlPrompt (PStr ''Create a project'')))
            (Return (PDict [(''raw_text'', PStr ''https://linear.app'')])),
          Called (PageGoto (PStr ''https://linear.app/login'') True) (Return PNone),
          Called ShowLoginBanner (Return PNone),
          Called ContextCookies (Return (PList [])),
          Called PageContent (Return (PStr ''<h1>Login</h1>'')), Probed False, Paused 3000,
          Called ContextCookies (Return (PList [])),
          Called PageContent (Return (PStr ''<h1>Login</h1>'')), Probed False, Paused 3000,
          Called ContextCookies (Return (PList [])),
          Called PageContent (Return (PStr ''<h1>Login</h1>'')), Probed False, Paused 3000,
          Called ContextCookies (Return (PList [])),
          Called PageContent (Return (PStr ''<h1>Login</h1>'')), Probed False, Paused 3000,
          Called RemoveLoginBanner (Return PNone)]\<rparr>)"
  by (simp add: run_def cookie_login_def manual_login_def probe_slow base_sample goto_def
      init_state_def slow_login_wall_def do_call_def pause_def startswith_def
      manual_login_loop.simps)

theorem no_plan_step_before_login_witness:
  "run plain_lib slow_login_wall (PStr ''https://www.google.com'') (PStr ''Create a project'')
     (init_state ())
   = (Inr (PDict [(''error'', PStr ''login_timeout'')]),
      snd (run plain_lib slow_login_wall (PStr ''https://www.google.com'')
             (PStr ''Create a project'') (init_state ())))
   \<and> Probed True \<notin> set (emitted (init_state ())
        (snd (run plain_lib slow_login_wall (PStr ''https://www.google.com'')
                (PStr ''Create a project'') (init_state ()))))
   \<and> Called (PlanAction (BaseUrlPrompt (PStr ''Create a project'')))
        (Return (PDict [(''raw_text'', PStr ''https://linear.app'')]))
      \<in> set (emitted (init_state ())
        (snd (run plain_lib slow_login_wall (PStr ''https://www.google.com'')
                (PStr ''Create a project'') (init_state ()))))
   \<and> base_url_of plain_lib (PDict [(''raw_text'', PStr ''https://linear.app'')])
      = Inr ''https://linear.app''
   \<and> \<not> list_ex is_plan_event (emitted (init_state ())
        (snd (run plain_lib slow_login_wall (PStr ''https://www.google.com'')
                (PStr ''Create a project'') (init_state ()))))
   \<and> plan_after_login False (emitted (init_state ())
        (snd (run plain_lib slow_login_wall (PStr ''https://www.google.com'')
                (PStr ''Create a project'') (init_state ()))))
   \<and> 120000 \<le> now (snd (run plain_lib slow_login_wall (PStr ''https://www.google.com'')
                (PStr ''Create a project'') (init_state ())))"
proof -
  let ?run = "run plain_lib slow_login_wall (PStr ''https://www.google.com'')
                (PStr ''Create a project'') (init_state ())"
  let ?task = "PStr ''Create a project''"
  have r: "?run = (fst ?run, snd ?run)" by simp
  have n: "Probed True \<notin> set (emitted (init_state ()) (snd ?run))"
    unfolding scenario_B_run by (simp add: emitted_def init_state_def)
  have h1: "\<forall>m. Called RemoveCookiesFile (Raise m) \<notin> set (emitted (init_state ()) (snd ?run))"
    unfolding scenario_B_run by (simp add: emitted_def init_state_def)
  have h2: "\<forall>m. Called (PlanAction (BaseUrlPrompt ?task)) (Raise m)
               \<notin> set (emitted (init_state ()) (snd ?run))"
    unfolding scenario_B_run by (simp add: emitted_def init_state_def)
  have h3: "\<forall>v. Called (PlanAction (BaseUrlPrompt ?task)) (Return v)
                 \<in> set (emitted (init_state ()) (snd ?run))
               \<longrightarrow> (\<exists>u. base_url_of plain_lib v = Inr u)"
    unfolding scenario_B_run by (simp add: emitted_def init_state_def base_sample(1))
  have m: "Called (PlanAction (BaseUrlPrompt ?task))
             (Return (PDict [(''raw_text'', PStr ''https://linear.app'')]))
           \<in> set (emitted (init_state ()) (snd ?run))"
    unfolding scenario_B_run by (simp add: emitted_def init_state_def)
  have t: "120000 \<le> now (snd ?run)"
    unfolding scenario_B_run by simp
  note main = no_plan_step_before_login [of plain_lib slow_login_wall
      "PStr ''https://www.google.com''" ?task "init_state ()" "fst ?run" "snd ?run"]
  have o: "fst ?run = Inr (PDict [(''error'', PStr ''login_timeout'')])"
    using main r n h1 h2 h3 by blast
  have p: "\<not> list_ex is_plan_event (emitted (init_state ()) (snd ?run))"
    "plan_after_login False (emitted (init_state ()) (snd ?run))"
    using main r n by blast+
  show ?thesis
    using o p n m t base_sample(1) by (metis prod.collapse)
qed

text \<open>A planner that answers the base-URL prompt with a number under \<^verbatim>\<open>url\<close>.\<close>

lemma google_sample:
  "strip_where is_quote (py_strip ''https://www.google.com'') = ''https://www.google.com''"
  by code_simp

lemma numeric_url_run:
  "run plain_lib numeric_url_reply (PStr ''https://www.google.com'') (PStr ''Create a project'')
     (init_state ()) =
   (Inl (TypeError ''expected string or bytes-like object''),
    (init_state ())\<lparr>now := 2300,
       log :=
         [Called (PageGoto (PStr ''https://www.google.com'') True) (Return PNone),
          Paused 2000,
          Called CookiesFileExists (Return (PBool False)),
          Called (PlanAction (BaseUrlPrompt (PStr ''Create a project'')))
            (Return (PDict [(''url'', PInt 5)]))]\<rparr>)"
  by (simp add: run_def cookie_login_def manual_login_def google_sample goto_def
      init_state_def numeric_url_reply_def do_call_def pause_def startswith_def
      base_url_of_def reply_url_def dict_get_def py_or_def)

text \<open>
  C4. With no cookie session and a probe that never succeeds, the run is to end with
  \<^verbatim>\<open>{"error": "login_timeout"}\<close>. It does not when the planner answers the base-URL
  prompt with \<^verbatim>\<open>{"url": 5}\<close>: the value under \<^verbatim>\<open>url\<close> reaches \<^verbatim>\<open>re.search\<close> as it is,
  without the \<^verbatim>\<open>str\<close> that the \<^verbatim>\<open>raw_text\<close> branch and the non-dict branch apply, and
  the run raises before the login page is opened, where a reply without a usable URL
  is meant to fall back to Google. No probe answered yes, and no plan was requested or
  executed.
\<close>

theorem run_raises_on_numeric_url:
  "isl (fst (run plain_lib numeric_url_reply (PStr ''https://www.google.com'')
               (PStr ''Create a project'') (init_state ())))
   \<and> fst (run plain_lib numeric_url_reply (PStr ''https://www.google.com'')
           (PStr ''Create a project'') (init_state ()))
       \<noteq> Inr (PDict [(''error'', PStr ''login_timeout'')])
   \<and> Probed True \<notin> set (log (snd (run plain_lib numeric_url_reply
           (PStr ''https://www.google.com'') (PStr ''Create a project'') (init_state ()))))
   \<and> \<not> list_ex is_plan_event (log (snd (run plain_lib numeric_url_reply
           (PStr ''https://www.google.com'') (PStr ''Create a project'') (init_state ()))))"
  unfolding numeric_url_run by simp

end
